theory Spec2Isabelle
  imports Main
begin

section \<open>Strings of the platform\<close>

text \<open>
  The handler \<open>userUploadsGet\<close> of \<open>packages/api/src/user.js\<close> reads the query
  parameters of the request URL, which \<open>URLSearchParams\<close> hands out as strings of
  Unicode scalar values. A string is modelled by its UTF-8 bytes (\<open>string\<close>, a list
  of 8-bit characters): every value \<open>searchParams.get\<close> can return has exactly one
  such encoding, and an ASCII literal of the source is the same literal here.
\<close>

subsection \<open>parseInt\<close>

text \<open>
  \<open>parseInt(string)\<close> with no radix (ECMAScript, \<open>parseInt ( string, radix )\<close>):
  leading white space is skipped (the code points of \<open>WhiteSpace\<close> and
  \<open>LineTerminator\<close>), then an optional sign, then an optional \<open>0x\<close>/\<open>0X\<close> that
  switches the radix from 10 to 16; the longest run of digits of that radix is the
  number and whatever follows it is ignored. With no digit the result is NaN, here
  \<open>None\<close>.

  \<open>StrWhiteSpaceChar_len s\<close> is the number of bytes of the white-space code point
  that \<open>s\<close> starts with, 0 when it starts with none: TAB, LF, VT, FF, CR, SP (one
  byte), U+00A0 (C2 A0), U+1680 (E1 9A 80), U+2000 to U+200A, U+2028, U+2029, U+202F
  (E2 80 ..), U+205F (E2 81 9F), U+3000 (E3 80 80) and U+FEFF (EF BB BF).
\<close>

definition StrWhiteSpaceChar_len :: "string \<Rightarrow> nat" where
  "StrWhiteSpaceChar_len s =
     (if s = [] then 0
      else if hd s \<in> set [CHR 0x09, CHR 0x0A, CHR 0x0B, CHR 0x0C, CHR 0x0D, CHR 0x20] then 1
      else if take 2 s = [CHR 0xC2, CHR 0xA0] then 2
      else if take 3 s = [CHR 0xE1, CHR 0x9A, CHR 0x80] then 3
      else if take 2 s = [CHR 0xE2, CHR 0x80] \<and> length s \<ge> 3 \<and>
              ((of_char (s ! 2) :: nat) \<in> {0x80..0x8A} \<or>
               s ! 2 \<in> set [CHR 0xA8, CHR 0xA9, CHR 0xAF]) then 3
      else if take 3 s = [CHR 0xE2, CHR 0x81, CHR 0x9F] then 3
      else if take 3 s = [CHR 0xE3, CHR 0x80, CHR 0x80] then 3
      else if take 3 s = [CHR 0xEF, CHR 0xBB, CHR 0xBF] then 3
      else 0)"

function trimStart :: "string \<Rightarrow> string" where
  "trimStart s =
     (if StrWhiteSpaceChar_len s = 0 then s
      else trimStart (drop (StrWhiteSpaceChar_len s) s))"
  by pat_completeness auto
termination
  by (relation "measure length") (auto simp: StrWhiteSpaceChar_len_def split: if_splits)

declare trimStart.simps [simp del]

text \<open>The value of a digit in a radix of at most 16, \<open>None\<close> for any other character.\<close>

definition digit_value :: "nat \<Rightarrow> char \<Rightarrow> nat option" where
  "digit_value R c =
     (let n = (of_char c :: nat);
          v = (if 0x30 \<le> n \<and> n \<le> 0x39 then Some (n - 0x30)
               else if 0x61 \<le> n \<and> n \<le> 0x66 then Some (n - 0x61 + 10)
               else if 0x41 \<le> n \<and> n \<le> 0x46 then Some (n - 0x41 + 10)
               else None)
      in case v of None \<Rightarrow> None | Some d \<Rightarrow> if d < R then Some d else None)"

definition radix_value :: "nat \<Rightarrow> string \<Rightarrow> nat" where
  "radix_value R Z = foldl (\<lambda>a c. a * R + the (digit_value R c)) 0 Z"

text \<open>
  The result of \<open>parseInt\<close> is the Number nearest to the integer read. The model
  keeps the integer itself: the two agree below \<open>2 ^ 53\<close>, and rounding is monotone
  and leaves 0 and 1000 fixed, so every comparison the handler makes with 0 and with
  1000 has the same outcome on both, and every value it accepts is exact.
\<close>

definition parseInt :: "string \<Rightarrow> int option" where
  "parseInt string =
     (let S = trimStart string;
          sign = (if S \<noteq> [] \<and> hd S = CHR ''-'' then - 1 else 1 :: int);
          S = (if S \<noteq> [] \<and> (hd S = CHR ''+'' \<or> hd S = CHR ''-'') then tl S else S);
          hex = (take 2 S = ''0x'' \<or> take 2 S = ''0X'');
          R = (if hex then 16 else 10 :: nat);
          S = (if hex then drop 2 S else S);
          Z = takeWhile (\<lambda>c. digit_value R c \<noteq> None) S
      in if Z = [] then None else Some (sign * int (radix_value R Z)))"

subsection \<open>Number to string, encodeURIComponent\<close>

text \<open>
  A template literal renders a Number with \<open>Number::toString\<close>, which for an integer
  of magnitude below \<open>10 ^ 21\<close> is its decimal numeral, with a minus sign when it is
  negative. The handler renders integers between -999 and 2000 only.
\<close>

fun decimal :: "nat \<Rightarrow> string" where
  "decimal n =
     (if n < 10 then [''0123456789'' ! n]
      else decimal (n div 10) @ [''0123456789'' ! (n mod 10)])"

declare decimal.simps [simp del]

definition Number_toString :: "int \<Rightarrow> string" where
  "Number_toString n = (if n < 0 then ''-'' @ decimal (nat (- n)) else decimal (nat n))"

text \<open>
  \<open>encodeURIComponent\<close> keeps the unreserved characters (letters, digits and
  \<open>- _ . ! ~ * ' ( )\<close>) and writes every other byte of the UTF-8 encoding as \<open>%XX\<close>
  with upper-case hexadecimal digits.
\<close>

definition uriUnreserved :: "char \<Rightarrow> bool" where
  "uriUnreserved c \<longleftrightarrow>
     c \<in> set (''ABCDEFGHIJKLMNOPQRSTUVWXYZabcdefghijklmnopqrstuvwxyz0123456789-_.!~*()''
              @ [CHR 0x27])"

definition percentEncode :: "char \<Rightarrow> string" where
  "percentEncode c =
     (let n = (of_char c :: nat)
      in [CHR ''%'', ''0123456789ABCDEF'' ! (n div 16), ''0123456789ABCDEF'' ! (n mod 16)])"

definition encodeURIComponent :: "string \<Rightarrow> string" where
  "encodeURIComponent s =
     concat (map (\<lambda>c. if uriUnreserved c then [c] else percentEncode c) s)"

subsection \<open>Date\<close>

text \<open>
  A \<open>Date\<close> holds a time value: the milliseconds since 1970-01-01T00:00:00Z, or NaN
  for an invalid date. What \<open>new Date(string)\<close> accepts beyond the ISO format is left
  to the implementation by ECMAScript, so the parser is a parameter of the model,
  \<open>Date_parse :: string \<Rightarrow> int option\<close>, with \<open>None\<close> for NaN. \<open>toISOString\<close> is
  fixed by the standard and is modelled in full, with the standard's own day and
  year arithmetic: \<open>YYYY-MM-DDTHH:mm:ss.sssZ\<close>, the year written with a sign and six
  digits outside 0 to 9999.
\<close>

definition msPerDay :: int where
  "msPerDay = 86400000"

definition Day :: "int \<Rightarrow> int" where
  "Day t = t div msPerDay"

definition DayFromYear :: "int \<Rightarrow> int" where
  "DayFromYear y =
     365 * (y - 1970) + (y - 1969) div 4 - (y - 1901) div 100 + (y - 1601) div 400"

text \<open>
  \<open>YearFromTime t\<close> is the largest year \<open>y\<close> with \<open>DayFromYear y \<le> Day t\<close>. It is
  computed from an estimate, the days divided by the mean length of a year, which is
  off by at most one (\<open>YearFromTime_largest\<close> below).
\<close>

definition YearFromTime :: "int \<Rightarrow> int" where
  "YearFromTime t =
     (let y = 1970 + (Day t * 400) div 146097
      in if Day t < DayFromYear y then y - 1
         else if DayFromYear (y + 1) \<le> Day t then y + 1
         else y)"

definition InLeapYear :: "int \<Rightarrow> int" where
  "InLeapYear t = DayFromYear (YearFromTime t + 1) - DayFromYear (YearFromTime t) - 365"

definition DayWithinYear :: "int \<Rightarrow> int" where
  "DayWithinYear t = Day t - DayFromYear (YearFromTime t)"

definition MonthFromTime :: "int \<Rightarrow> int" where
  "MonthFromTime t =
     (let d = DayWithinYear t; L = InLeapYear t
      in if d < 31 then 0 else if d < 59 + L then 1 else if d < 90 + L then 2
         else if d < 120 + L then 3 else if d < 151 + L then 4 else if d < 181 + L then 5
         else if d < 212 + L then 6 else if d < 243 + L then 7 else if d < 273 + L then 8
         else if d < 304 + L then 9 else if d < 334 + L then 10 else 11)"

definition DateFromTime :: "int \<Rightarrow> int" where
  "DateFromTime t =
     (let d = DayWithinYear t; L = InLeapYear t; m = MonthFromTime t
      in if m = 0 then d + 1 else if m = 1 then d - 30 else if m = 2 then d - 58 - L
         else if m = 3 then d - 89 - L else if m = 4 then d - 119 - L
         else if m = 5 then d - 150 - L else if m = 6 then d - 180 - L
         else if m = 7 then d - 211 - L else if m = 8 then d - 242 - L
         else if m = 9 then d - 272 - L else if m = 10 then d - 303 - L
         else d - 333 - L)"

definition HourFromTime :: "int \<Rightarrow> int" where
  "HourFromTime t = (t div 3600000) mod 24"

definition MinFromTime :: "int \<Rightarrow> int" where
  "MinFromTime t = (t div 60000) mod 60"

definition SecFromTime :: "int \<Rightarrow> int" where
  "SecFromTime t = (t div 1000) mod 60"

definition msFromTime :: "int \<Rightarrow> int" where
  "msFromTime t = t mod 1000"

text \<open>The decimal numeral of \<open>n\<close>, with zeros in front up to \<open>k\<close> digits.\<close>

definition padStart :: "nat \<Rightarrow> int \<Rightarrow> string" where
  "padStart k n = replicate (k - length (decimal (nat n))) CHR ''0'' @ decimal (nat n)"

definition toISOString :: "int \<Rightarrow> string" where
  "toISOString t =
     (let y = YearFromTime t
      in (if 0 \<le> y \<and> y \<le> 9999 then padStart 4 y
          else if y < 0 then ''-'' @ padStart 6 (- y)
          else ''+'' @ padStart 6 y)
         @ ''-'' @ padStart 2 (MonthFromTime t + 1)
         @ ''-'' @ padStart 2 (DateFromTime t)
         @ ''T'' @ padStart 2 (HourFromTime t)
         @ '':'' @ padStart 2 (MinFromTime t)
         @ '':'' @ padStart 2 (SecFromTime t)
         @ ''.'' @ padStart 3 (msFromTime t)
         @ ''Z'')"

section \<open>The request, the upload store and the response\<close>

text \<open>
  \<open>new URL(request.url)\<close> gives the handler the path of the request and its query
  parameters: \<open>pathname\<close> and \<open>searchParams\<close>, the latter the list of name/value pairs
  in the order of the query string. \<open>has\<close> tells whether a name occurs, \<open>get\<close>
  returns the value of its first occurrence, \<open>null\<close> (here \<open>None\<close>) when there is none.
  \<open>auth_user_id\<close> is \<open>request.auth.user._id\<close>, set by the authentication that runs
  before the handler.
\<close>

type_synonym URLSearchParams = "(string \<times> string) list"

definition searchParams_get :: "URLSearchParams \<Rightarrow> string \<Rightarrow> string option" where
  "searchParams_get sp name = map_of sp name"

definition searchParams_has :: "URLSearchParams \<Rightarrow> string \<Rightarrow> bool" where
  "searchParams_has sp name \<longleftrightarrow> map_of sp name \<noteq> None"

record request =
  pathname :: string
  searchParams :: URLSearchParams
  auth_user_id :: string

text \<open>
  The options \<open>env.db.listUploads\<close> is called with (\<open>before\<close> and \<open>after\<close> are
  \<open>undefined\<close>, here \<open>None\<close>, when the request has no such parameter), and what the
  store answers.
\<close>

record listUploads_opts =
  size' :: int
  offset :: int
  before :: "string option"
  after :: "string option"
  sortBy :: string
  sortOrder :: string

record 'u listUploads_data =
  uploads :: "'u list"
  count :: int

text \<open>
  The store is \<open>env.db\<close>. A call of \<open>listUploads\<close> either resolves to a page or
  rejects with an error of the store's own (\<open>Inl\<close>, with its message).
\<close>

record 'u env =
  db_listUploads :: "string \<Rightarrow> listUploads_opts \<Rightarrow> string + 'u listUploads_data"

text \<open>
  What the handler throws: \<open>Object.assign(new Error(message), { status })\<close>, or the
  rejection of the store, which \<open>await\<close> rethrows unchanged.
\<close>

datatype error = Error_status string nat | StoreRejection string

record headers =
  Count :: int
  Size :: int
  Offset :: int
  Next_link :: "string option"
  Prev_link :: "string option"

record 'u JSONResponse =
  body :: "'u list"
  headers :: headers

section \<open>userUploadsGet\<close>

text \<open>Lines 181 to 188: the page size.\<close>

definition size_param :: "URLSearchParams \<Rightarrow> error + int" where
  "size_param sp =
     (if searchParams_has sp ''size'' then
        (case parseInt (the (searchParams_get sp ''size'')) of
           None \<Rightarrow> Inl (Error_status ''invalid page size'' 400)
         | Some parsedSize \<Rightarrow>
             if parsedSize \<le> 0 \<or> parsedSize > 1000
             then Inl (Error_status ''invalid page size'' 400)
             else Inr parsedSize)
      else Inr 25)"

text \<open>Lines 190 to 197: the page offset.\<close>

definition offset_param :: "URLSearchParams \<Rightarrow> error + int" where
  "offset_param sp =
     (if searchParams_has sp ''offset'' then
        (case parseInt (the (searchParams_get sp ''offset'')) of
           None \<Rightarrow> Inl (Error_status ''invalid page offset'' 400)
         | Some parsedOffset \<Rightarrow>
             if parsedOffset \<le> 0 \<or> parsedOffset > 1000
             then Inl (Error_status ''invalid page offset'' 400)
             else Inr parsedOffset)
      else Inr 0)"

text \<open>Lines 199 to 206 and 208 to 215: the two dates.\<close>

definition before_param ::
  "(string \<Rightarrow> int option) \<Rightarrow> URLSearchParams \<Rightarrow> error + string option" where
  "before_param Date_parse sp =
     (if searchParams_has sp ''before'' then
        (case Date_parse (the (searchParams_get sp ''before'')) of
           None \<Rightarrow> Inl (Error_status ''invalid before date'' 400)
         | Some parsedBefore \<Rightarrow> Inr (Some (toISOString parsedBefore)))
      else Inr None)"

definition after_param ::
  "(string \<Rightarrow> int option) \<Rightarrow> URLSearchParams \<Rightarrow> error + string option" where
  "after_param Date_parse sp =
     (if searchParams_has sp ''after'' then
        (case Date_parse (the (searchParams_get sp ''after'')) of
           None \<Rightarrow> Inl (Error_status ''invalid after date'' 400)
         | Some parsedAfter \<Rightarrow> Inr (Some (toISOString parsedAfter)))
      else Inr None)"

text \<open>
  Lines 217 and 218: \<open>searchParams.get(name) || dflt\<close> is the default when the
  parameter is missing and also when it is the empty string.
\<close>

definition get_or :: "URLSearchParams \<Rightarrow> string \<Rightarrow> string \<Rightarrow> string" where
  "get_or sp name dflt =
     (case searchParams_get sp name of
        None \<Rightarrow> dflt
      | Some v \<Rightarrow> if v = [] then dflt else v)"

text \<open>Lines 237 and 242: the text of a link header, the same template in both places.\<close>

definition link :: "string \<Rightarrow> int \<Rightarrow> int \<Rightarrow> string" where
  "link path sz off =
     ''<'' @ path @ ''?size='' @ Number_toString sz @ ''&offset=''
       @ encodeURIComponent (Number_toString off) @ ''>; rel=\"next\"''"

text \<open>
  The handler. Its result is paired with the list of the calls of
  \<open>env.db.listUploads\<close> it has made, in order, each with the user id and the options
  passed: the empty list says that the store was not queried. A \<open>throw\<close> ends the
  handler with \<open>Inl\<close>; the test \<open>if (offset)\<close> of line 240 holds when the offset,
  a number, is not 0.
\<close>

definition userUploadsGet ::
  "(string \<Rightarrow> int option) \<Rightarrow> 'u env \<Rightarrow> request
     \<Rightarrow> (error + 'u JSONResponse) \<times> (string \<times> listUploads_opts) list" where
  "userUploadsGet Date_parse env request =
     (let sp = searchParams request in
      case size_param sp of Inl e \<Rightarrow> (Inl e, []) | Inr sz \<Rightarrow>
     (case offset_param sp of Inl e \<Rightarrow> (Inl e, []) | Inr off \<Rightarrow>
     (case before_param Date_parse sp of Inl e \<Rightarrow> (Inl e, []) | Inr bef \<Rightarrow>
     (case after_param Date_parse sp of Inl e \<Rightarrow> (Inl e, []) | Inr aft \<Rightarrow>
     (let opts = \<lparr> size' = sz, offset = off, before = bef, after = aft,
                   sortBy = get_or sp ''sortBy'' ''Date'',
                   sortOrder = get_or sp ''sortOrder'' ''Desc'' \<rparr>;
          call = (auth_user_id request, opts)
      in case db_listUploads env (auth_user_id request) opts of
           Inl x \<Rightarrow> (Inl (StoreRejection x), [call])
         | Inr data \<Rightarrow>
            (let hs = \<lparr> Count = count data, Size = sz, Offset = off,
                         Next_link = None, Prev_link = None \<rparr>;
                 hs = (if int (length (uploads data)) + off < count data
                       then hs \<lparr> Next_link := Some (link (pathname request) sz (off + sz)) \<rparr>
                       else hs);
                 hs = (if off \<noteq> 0
                       then hs \<lparr> Prev_link := Some (link (pathname request) sz (off - sz)) \<rparr>
                       else hs)
             in (Inr \<lparr> body = uploads data, headers = hs \<rparr>, [call])))))))"

section \<open>Examples\<close>

text \<open>
  Inputs for the concrete instances below: a request on the path \<open>/user/uploads\<close>
  with given query parameters; a store that holds \<open>N\<close> uploads, answers with the
  page asked for and counts them all; and a date parser that knows one date, at
  which it agrees with every engine (\<open>new Date('2021-01-01').getTime()\<close> is
  1609459200000), and rejects the rest, among them \<open>not-a-date\<close>.
\<close>

definition example_request :: "URLSearchParams \<Rightarrow> request" where
  "example_request sp = \<lparr> pathname = ''/user/uploads'', searchParams = sp, auth_user_id = ''1'' \<rparr>"

definition example_db :: "nat \<Rightarrow> unit env" where
  "example_db N =
     \<lparr> db_listUploads = (\<lambda>user opts.
         Inr \<lparr> uploads = take (nat (size' opts)) (drop (nat (offset opts)) (replicate N ())),
               count = int N \<rparr>) \<rparr>"

definition example_Date_parse :: "string \<Rightarrow> int option" where
  "example_Date_parse s = (if s = ''2021-01-01'' then Some 1609459200000 else None)"

section \<open>Properties of the platform functions\<close>

lemma decimal_digits: "set (decimal n) \<subseteq> set ''0123456789''"
proof (induction n rule: decimal.induct)
  case (1 n)
  have d: "''0123456789'' ! k \<in> set ''0123456789''" if "k < 10" for k
    using that by (intro nth_mem) simp
  show ?case
  proof (cases "n < 10")
    case True
    then show ?thesis using d [of n] by (subst decimal.simps) simp
  next
    case False
    have "n mod 10 < 10" by simp
    with False "1" d [of "n mod 10"] show ?thesis
      by (subst decimal.simps) simp
  qed
qed

lemma encodeURIComponent_unreserved:
  "\<forall>c \<in> set s. uriUnreserved c \<Longrightarrow> encodeURIComponent s = s"
  by (induction s) (simp_all add: encodeURIComponent_def)

lemma encodeURIComponent_decimal: "encodeURIComponent (decimal n) = decimal n"
proof (rule encodeURIComponent_unreserved, rule ballI)
  fix c assume "c \<in> set (decimal n)"
  with decimal_digits have "c \<in> set ''0123456789''" by blast
  then show "uriUnreserved c" by (auto simp: uriUnreserved_def)
qed

lemma encodeURIComponent_Number_toString:
  "encodeURIComponent (Number_toString n) = Number_toString n"
proof -
  have "encodeURIComponent (''-'' @ s) = ''-'' @ encodeURIComponent s" for s
    by (simp add: encodeURIComponent_def uriUnreserved_def)
  then show ?thesis
    by (simp add: Number_toString_def encodeURIComponent_decimal)
qed

lemma link_text:
  "link path sz off =
     ''<'' @ path @ ''?size='' @ Number_toString sz @ ''&offset='' @ Number_toString off
       @ ''>; rel=\"next\"''"
  by (simp add: link_def encodeURIComponent_Number_toString)

text \<open>\<open>parseInt\<close> reads back what \<open>Number_toString\<close> writes.\<close>

lemma digit_value_decimal_digit:
  assumes "d < 10"
  shows "digit_value 10 (''0123456789'' ! d) = Some d"
proof -
  from assms have "d = 0 \<or> d = 1 \<or> d = 2 \<or> d = 3 \<or> d = 4 \<or> d = 5 \<or> d = 6
    \<or> d = 7 \<or> d = 8 \<or> d = 9"
    by presburger
  then show ?thesis
    by (elim disjE) (simp_all add: digit_value_def)
qed

lemma decimal_not_Nil: "decimal n \<noteq> []"
  by (subst decimal.simps) simp

lemma radix_value_decimal: "radix_value 10 (decimal n) = n"
proof (induction n rule: decimal.induct)
  case (1 n)
  show ?case
  proof (cases "n < 10")
    case True
    then show ?thesis
      by (subst decimal.simps) (simp add: radix_value_def digit_value_decimal_digit)
  next
    case False
    with "1" have "radix_value 10 (decimal (n div 10)) = n div 10" by simp
    with False show ?thesis
      by (subst decimal.simps) (simp add: radix_value_def digit_value_decimal_digit)
  qed
qed

lemma parseInt_digits:
  assumes "S \<noteq> []" and "set S \<subseteq> set ''0123456789''"
  shows "parseInt S = Some (int (radix_value 10 S))"
    and "parseInt (''-'' @ S) = Some (- int (radix_value 10 S))"
proof -
  from assms obtain c s where S: "S = c # s" and c: "c \<in> set ''0123456789''"
    by (cases S) auto
  from c have "c = CHR ''0'' \<or> c = CHR ''1'' \<or> c = CHR ''2'' \<or> c = CHR ''3'' \<or> c = CHR ''4''
    \<or> c = CHR ''5'' \<or> c = CHR ''6'' \<or> c = CHR ''7'' \<or> c = CHR ''8'' \<or> c = CHR ''9''"
    by simp
  then have ws: "StrWhiteSpaceChar_len S = 0"
    unfolding S by (elim disjE) (simp_all add: StrWhiteSpaceChar_len_def)
  have trim: "trimStart S = S"
    by (subst trimStart.simps) (simp add: ws)
  have trim': "trimStart (''-'' @ S) = ''-'' @ S"
    by (subst trimStart.simps) (simp add: StrWhiteSpaceChar_len_def)
  from c have hd: "hd S \<noteq> CHR ''-''" "hd S \<noteq> CHR ''+''"
    unfolding S by auto
  have "set (take 2 S) \<subseteq> set ''0123456789''"
    using set_take_subset assms(2) by (rule subset_trans)
  then have hex: "take 2 S \<noteq> ''0x''" "take 2 S \<noteq> ''0X''"
    by auto
  have "digit_value 10 c \<noteq> None" if "c \<in> set S" for c
  proof -
    from that assms(2) have "c \<in> set ''0123456789''" by blast
    then show ?thesis by (auto simp: digit_value_def)
  qed
  then have all: "takeWhile (\<lambda>c. \<exists>y. digit_value 10 c = Some y) S = S"
    by (simp add: takeWhile_eq_all_conv)
  show "parseInt S = Some (int (radix_value 10 S))"
    unfolding parseInt_def trim Let_def using hd hex assms(1) by (simp add: all)
  show "parseInt (''-'' @ S) = Some (- int (radix_value 10 S))"
    unfolding parseInt_def trim' Let_def using hex assms(1) by (simp add: all)
qed

lemma parseInt_Number_toString: "parseInt (Number_toString n) = Some n"
  using parseInt_digits [OF decimal_not_Nil decimal_digits]
  by (simp add: Number_toString_def radix_value_decimal)

text \<open>The year of a time value.\<close>

lemma div_bounds:
  fixes a c :: int
  assumes "0 < c"
  shows "c * (a div c) \<le> a" and "a < c * (a div c) + c"
proof -
  have "a = c * (a div c) + a mod c" by simp
  moreover from assms have "0 \<le> a mod c" "a mod c < c" by simp_all
  ultimately show "c * (a div c) \<le> a" and "a < c * (a div c) + c" by linarith+
qed

lemma DayFromYear_bounds:
  "400 * DayFromYear (1970 + k) \<le> 146097 * k + 593"
  "146097 * k - 607 \<le> 400 * DayFromYear (1970 + k)"
proof -
  define x y z where "x = (k + 1) div 4" and "y = (k + 69) div 100" and "z = (k + 369) div 400"
  have x: "4 * x \<le> k + 1" "k + 1 < 4 * x + 4"
    unfolding x_def by (rule div_bounds; simp)+
  have y: "100 * y \<le> k + 69" "k + 69 < 100 * y + 100"
    unfolding y_def by (rule div_bounds; simp)+
  have z: "400 * z \<le> k + 369" "k + 369 < 400 * z + 400"
    unfolding z_def by (rule div_bounds; simp)+
  have eq: "400 * DayFromYear (1970 + k) = 146000 * k + 400 * x - 400 * y + 400 * z"
    by (simp add: DayFromYear_def x_def y_def z_def algebra_simps)
  show "400 * DayFromYear (1970 + k) \<le> 146097 * k + 593"
    unfolding eq using x(1) y(2) z(1) by linarith
  show "146097 * k - 607 \<le> 400 * DayFromYear (1970 + k)"
    unfolding eq using x(2) y(1) z(2) by linarith
qed

text \<open>
  \<open>YearFromTime t\<close> is the year the day of \<open>t\<close> falls in: the largest \<open>y\<close> with
  \<open>DayFromYear y \<le> Day t\<close>, as the standard defines it.
\<close>

lemma YearFromTime_largest:
  "DayFromYear (YearFromTime t) \<le> Day t \<and> Day t < DayFromYear (YearFromTime t + 1)"
proof -
  define q where "q = (Day t * 400) div 146097"
  have "146097 * q \<le> Day t * 400" "Day t * 400 < 146097 * q + 146097"
    unfolding q_def by (rule div_bounds; simp)+
  then have q: "146097 * q \<le> 400 * Day t" "400 * Day t < 146097 * q + 146097"
    by linarith+
  have "400 * DayFromYear (1970 + (q - 1)) \<le> 146097 * (q - 1) + 593"
    by (rule DayFromYear_bounds)
  with q(1) have lo: "DayFromYear (1970 + q - 1) \<le> Day t"
    by (simp add: algebra_simps)
  have "146097 * (q + 2) - 607 \<le> 400 * DayFromYear (1970 + (q + 2))"
    by (rule DayFromYear_bounds)
  with q(2) have hi: "Day t < DayFromYear (1970 + q + 1 + 1)"
    by (simp add: algebra_simps)
  show ?thesis
    unfolding YearFromTime_def Let_def q_def [symmetric]
    using lo hi by (auto simp: algebra_simps)
qed

section \<open>The four validations\<close>

lemma size_param_cases:
  obtains (absent) "searchParams_get sp ''size'' = None" "size_param sp = Inr 25"
  | (invalid) v where "searchParams_get sp ''size'' = Some v"
      "parseInt v = None \<or> (\<exists>n. parseInt v = Some n \<and> (n \<le> 0 \<or> 1000 < n))"
      "size_param sp = Inl (Error_status ''invalid page size'' 400)"
  | (valid) v n where "searchParams_get sp ''size'' = Some v" "parseInt v = Some n"
      "1 \<le> n" "n \<le> 1000" "size_param sp = Inr n"
proof (cases "searchParams_get sp ''size''")
  case None
  then show ?thesis
    using absent by (simp add: size_param_def searchParams_has_def searchParams_get_def)
next
  case (Some v)
  note defs = size_param_def searchParams_has_def searchParams_get_def
  show ?thesis
  proof (cases "parseInt v")
    case None
    with Some show ?thesis using invalid [of v] by (simp add: defs)
  next
    case n: (Some n)
    show ?thesis
    proof (cases "n \<le> 0 \<or> 1000 < n")
      case True
      with Some n show ?thesis using invalid [of v] by (simp add: defs)
    next
      case False
      with Some n show ?thesis using valid [of v n] by (simp add: defs)
    qed
  qed
qed

lemma offset_param_cases:
  obtains (absent) "searchParams_get sp ''offset'' = None" "offset_param sp = Inr 0"
  | (invalid) v where "searchParams_get sp ''offset'' = Some v"
      "parseInt v = None \<or> (\<exists>n. parseInt v = Some n \<and> (n \<le> 0 \<or> 1000 < n))"
      "offset_param sp = Inl (Error_status ''invalid page offset'' 400)"
  | (valid) v n where "searchParams_get sp ''offset'' = Some v" "parseInt v = Some n"
      "1 \<le> n" "n \<le> 1000" "offset_param sp = Inr n"
proof (cases "searchParams_get sp ''offset''")
  case None
  then show ?thesis
    using absent by (simp add: offset_param_def searchParams_has_def searchParams_get_def)
next
  case (Some v)
  note defs = offset_param_def searchParams_has_def searchParams_get_def
  show ?thesis
  proof (cases "parseInt v")
    case None
    with Some show ?thesis using invalid [of v] by (simp add: defs)
  next
    case n: (Some n)
    show ?thesis
    proof (cases "n \<le> 0 \<or> 1000 < n")
      case True
      with Some n show ?thesis using invalid [of v] by (simp add: defs)
    next
      case False
      with Some n show ?thesis using valid [of v n] by (simp add: defs)
    qed
  qed
qed

lemma before_param_cases:
  obtains (absent) "searchParams_get sp ''before'' = None"
      "before_param Date_parse sp = Inr None"
  | (invalid) v where "searchParams_get sp ''before'' = Some v" "Date_parse v = None"
      "before_param Date_parse sp
         = Inl (Error_status ''invalid before date'' 400)"
  | (valid) v t where "searchParams_get sp ''before'' = Some v" "Date_parse v = Some t"
      "before_param Date_parse sp = Inr (Some (toISOString t))"
  by (cases "searchParams_get sp ''before''"; cases "Date_parse (the (searchParams_get sp ''before''))")
     (auto simp: before_param_def searchParams_has_def searchParams_get_def)

lemma after_param_cases:
  obtains (absent) "searchParams_get sp ''after'' = None"
      "after_param Date_parse sp = Inr None"
  | (invalid) v where "searchParams_get sp ''after'' = Some v" "Date_parse v = None"
      "after_param Date_parse sp
         = Inl (Error_status ''invalid after date'' 400)"
  | (valid) v t where "searchParams_get sp ''after'' = Some v" "Date_parse v = Some t"
      "after_param Date_parse sp = Inr (Some (toISOString t))"
  by (cases "searchParams_get sp ''after''"; cases "Date_parse (the (searchParams_get sp ''after''))")
     (auto simp: after_param_def searchParams_has_def searchParams_get_def)

section \<open>The outcomes of the handler\<close>

lemma userUploadsGet_size_invalid:
  "size_param (searchParams request) = Inl e \<Longrightarrow>
   userUploadsGet Date_parse env request = (Inl e, [])"
  by (simp add: userUploadsGet_def Let_def)

lemma userUploadsGet_offset_invalid:
  "size_param (searchParams request) = Inr sz \<Longrightarrow>
   offset_param (searchParams request) = Inl e \<Longrightarrow>
   userUploadsGet Date_parse env request = (Inl e, [])"
  by (simp add: userUploadsGet_def Let_def)

lemma userUploadsGet_before_invalid:
  "size_param (searchParams request) = Inr sz \<Longrightarrow>
   offset_param (searchParams request) = Inr off \<Longrightarrow>
   before_param Date_parse (searchParams request) = Inl e \<Longrightarrow>
   userUploadsGet Date_parse env request = (Inl e, [])"
  by (simp add: userUploadsGet_def Let_def)

lemma userUploadsGet_after_invalid:
  "size_param (searchParams request) = Inr sz \<Longrightarrow>
   offset_param (searchParams request) = Inr off \<Longrightarrow>
   before_param Date_parse (searchParams request) = Inr bef \<Longrightarrow>
   after_param Date_parse (searchParams request) = Inl e \<Longrightarrow>
   userUploadsGet Date_parse env request = (Inl e, [])"
  by (simp add: userUploadsGet_def Let_def)

lemma userUploadsGet_valid:
  assumes "size_param (searchParams request) = Inr sz"
    and "offset_param (searchParams request) = Inr off"
    and "before_param Date_parse (searchParams request) = Inr bef"
    and "after_param Date_parse (searchParams request) = Inr aft"
    and "opts = \<lparr> size' = sz, offset = off, before = bef, after = aft,
                   sortBy = get_or (searchParams request) ''sortBy'' ''Date'',
                   sortOrder = get_or (searchParams request) ''sortOrder'' ''Desc'' \<rparr>"
  shows "userUploadsGet Date_parse env request =
     (case db_listUploads env (auth_user_id request) opts of
        Inl x \<Rightarrow> (Inl (StoreRejection x), [(auth_user_id request, opts)])
      | Inr data \<Rightarrow>
          (Inr \<lparr> body = uploads data,
                 headers = \<lparr> Count = count data, Size = sz, Offset = off,
                   Next_link = (if int (length (uploads data)) + off < count data
                                then Some (link (pathname request) sz (off + sz)) else None),
                   Prev_link = (if off \<noteq> 0
                                then Some (link (pathname request) sz (off - sz)) else None) \<rparr> \<rparr>,
           [(auth_user_id request, opts)]))"
  using assms by (simp add: userUploadsGet_def Let_def split: sum.split)

text \<open>
  The two ways the handler ends. When it throws an error that carries a status, a
  validation has failed and the store has not been called; when it responds, the
  four validations have passed and the store has been called once.
\<close>

lemma userUploadsGet_Error_status:
  assumes "userUploadsGet Date_parse env request = (Inl (Error_status msg st), calls)"
  shows "calls = [] \<and> st = 400 \<and>
         msg \<in> {''invalid page size'', ''invalid page offset'',
                ''invalid before date'', ''invalid after date''}"
proof -
  let ?sp = "searchParams request"
  show ?thesis
  proof (cases "size_param ?sp")
    case (Inl e)
    with assms show ?thesis
      by (cases rule: size_param_cases [where sp = "?sp"])
         (auto simp: userUploadsGet_size_invalid)
  next
    case sz: (Inr sz)
    show ?thesis
    proof (cases "offset_param ?sp")
      case (Inl e)
      with assms sz show ?thesis
        by (cases rule: offset_param_cases [where sp = "?sp"])
           (auto simp: userUploadsGet_offset_invalid)
    next
      case off: (Inr off)
      show ?thesis
      proof (cases "before_param Date_parse ?sp")
        case (Inl e)
        with assms sz off show ?thesis
          by (cases rule: before_param_cases [where sp = "?sp" and Date_parse = Date_parse])
             (auto simp: userUploadsGet_before_invalid)
      next
        case bef: (Inr bef)
        show ?thesis
        proof (cases "after_param Date_parse ?sp")
          case (Inl e)
          with assms sz off bef show ?thesis
            by (cases rule: after_param_cases [where sp = "?sp" and Date_parse = Date_parse])
               (auto simp: userUploadsGet_after_invalid)
        next
          case aft: (Inr aft)
          from assms show ?thesis
            by (simp add: userUploadsGet_valid [OF sz off bef aft refl] split: sum.splits)
        qed
      qed
    qed
  qed
qed

lemma userUploadsGet_response:
  assumes "userUploadsGet Date_parse env request = (Inr response, calls)"
  obtains sz off bef aft opts data where
    "size_param (searchParams request) = Inr sz"
    "offset_param (searchParams request) = Inr off"
    "before_param Date_parse (searchParams request) = Inr bef"
    "after_param Date_parse (searchParams request) = Inr aft"
    "opts = \<lparr> size' = sz, offset = off, before = bef, after = aft,
               sortBy = get_or (searchParams request) ''sortBy'' ''Date'',
               sortOrder = get_or (searchParams request) ''sortOrder'' ''Desc'' \<rparr>"
    "db_listUploads env (auth_user_id request) opts = Inr data"
    "calls = [(auth_user_id request, opts)]"
    "response = \<lparr> body = uploads data,
       headers = \<lparr> Count = count data, Size = sz, Offset = off,
         Next_link = (if int (length (uploads data)) + off < count data
                      then Some (link (pathname request) sz (off + sz)) else None),
         Prev_link = (if off \<noteq> 0
                      then Some (link (pathname request) sz (off - sz)) else None) \<rparr> \<rparr>"
proof -
  let ?sp = "searchParams request"
  from assms obtain sz where sz: "size_param ?sp = Inr sz"
    by (cases "size_param ?sp") (auto simp: userUploadsGet_def Let_def)
  from assms sz obtain off where off: "offset_param ?sp = Inr off"
    by (cases "offset_param ?sp") (auto simp: userUploadsGet_def Let_def)
  from assms sz off obtain bef
    where bef: "before_param Date_parse ?sp = Inr bef"
    by (cases "before_param Date_parse ?sp")
       (auto simp: userUploadsGet_def Let_def)
  from assms sz off bef obtain aft
    where aft: "after_param Date_parse ?sp = Inr aft"
    by (cases "after_param Date_parse ?sp")
       (auto simp: userUploadsGet_def Let_def)
  define opts where "opts = \<lparr> size' = sz, offset = off, before = bef, after = aft,
               sortBy = get_or ?sp ''sortBy'' ''Date'',
               sortOrder = get_or ?sp ''sortOrder'' ''Desc'' \<rparr>"
  note eq = userUploadsGet_valid [OF sz off bef aft opts_def, of env]
  from assms obtain data where data: "db_listUploads env (auth_user_id request) opts = Inr data"
    by (cases "db_listUploads env (auth_user_id request) opts") (auto simp: eq)
  from assms have "calls = [(auth_user_id request, opts)]"
    and "response = \<lparr> body = uploads data,
       headers = \<lparr> Count = count data, Size = sz, Offset = off,
         Next_link = (if int (length (uploads data)) + off < count data
                      then Some (link (pathname request) sz (off + sz)) else None),
         Prev_link = (if off \<noteq> 0
                      then Some (link (pathname request) sz (off - sz)) else None) \<rparr> \<rparr>"
    by (simp_all add: eq data)
  with sz off bef aft opts_def data that show thesis by blast
qed

lemma userUploadsGet_calls:
  assumes "call \<in> set (snd (userUploadsGet Date_parse env request))"
  obtains sz off bef aft where
    "size_param (searchParams request) = Inr sz"
    "offset_param (searchParams request) = Inr off"
    "before_param Date_parse (searchParams request) = Inr bef"
    "after_param Date_parse (searchParams request) = Inr aft"
    "call = (auth_user_id request,
             \<lparr> size' = sz, offset = off, before = bef, after = aft,
               sortBy = get_or (searchParams request) ''sortBy'' ''Date'',
               sortOrder = get_or (searchParams request) ''sortOrder'' ''Desc'' \<rparr>)"
proof -
  let ?sp = "searchParams request"
  from assms obtain sz where sz: "size_param ?sp = Inr sz"
    by (cases "size_param ?sp") (auto simp: userUploadsGet_size_invalid)
  from assms sz obtain off where off: "offset_param ?sp = Inr off"
    by (cases "offset_param ?sp") (auto simp: userUploadsGet_offset_invalid)
  from assms sz off obtain bef where bef: "before_param Date_parse ?sp = Inr bef"
    by (cases "before_param Date_parse ?sp") (auto simp: userUploadsGet_before_invalid)
  from assms sz off bef obtain aft where aft: "after_param Date_parse ?sp = Inr aft"
    by (cases "after_param Date_parse ?sp") (auto simp: userUploadsGet_after_invalid)
  from assms have "call = (auth_user_id request,
             \<lparr> size' = sz, offset = off, before = bef, after = aft,
               sortBy = get_or ?sp ''sortBy'' ''Date'',
               sortOrder = get_or ?sp ''sortOrder'' ''Desc'' \<rparr>)"
    by (auto simp: userUploadsGet_valid [OF sz off bef aft refl] split: sum.splits)
  with sz off bef aft that show thesis by blast
qed

lemmas example_defs =
  userUploadsGet_def size_param_def offset_param_def before_param_def after_param_def
  get_or_def searchParams_get_def searchParams_has_def link_text Number_toString_def
  decimal.simps example_request_def example_db_def example_Date_parse_def Let_def

text \<open>When each validation fails, in terms of the parameter it reads.\<close>

lemma isl_size_param:
  "isl (size_param sp) \<longleftrightarrow>
     (\<exists>v. searchParams_get sp ''size'' = Some v \<and>
          (parseInt v = None \<or> (\<exists>n. parseInt v = Some n \<and> (n \<le> 0 \<or> 1000 < n))))"
  by (cases rule: size_param_cases [of sp]) auto

lemma isl_offset_param:
  "isl (offset_param sp) \<longleftrightarrow>
     (\<exists>v. searchParams_get sp ''offset'' = Some v \<and>
          (parseInt v = None \<or> (\<exists>n. parseInt v = Some n \<and> (n \<le> 0 \<or> 1000 < n))))"
  by (cases rule: offset_param_cases [of sp]) auto

lemma isl_before_param:
  "isl (before_param Date_parse sp) \<longleftrightarrow>
     (\<exists>v. searchParams_get sp ''before'' = Some v \<and> Date_parse v = None)"
  by (cases rule: before_param_cases [of sp Date_parse]) auto

lemma isl_after_param:
  "isl (after_param Date_parse sp) \<longleftrightarrow>
     (\<exists>v. searchParams_get sp ''after'' = Some v \<and> Date_parse v = None)"
  by (cases rule: after_param_cases [of sp Date_parse]) auto

text \<open>Which validation has failed, read from the error thrown.\<close>

lemma userUploadsGet_Error_status_cases:
  assumes "fst (userUploadsGet Date_parse env request) = Inl (Error_status msg st)"
  obtains (size) "isl (size_param (searchParams request))"
      "msg = ''invalid page size''" "st = 400"
  | (offset) "\<not> isl (size_param (searchParams request))"
      "isl (offset_param (searchParams request))"
      "msg = ''invalid page offset''" "st = 400"
  | (before) "\<not> isl (size_param (searchParams request))"
      "\<not> isl (offset_param (searchParams request))"
      "isl (before_param Date_parse (searchParams request))"
      "msg = ''invalid before date''" "st = 400"
  | (after) "\<not> isl (size_param (searchParams request))"
      "\<not> isl (offset_param (searchParams request))"
      "\<not> isl (before_param Date_parse (searchParams request))"
      "isl (after_param Date_parse (searchParams request))"
      "msg = ''invalid after date''" "st = 400"
proof -
  let ?sp = "searchParams request"
  show thesis
  proof (cases "size_param ?sp")
    case (Inl e)
    with assms size show thesis
      by (cases rule: size_param_cases [of ?sp]) (auto simp: userUploadsGet_size_invalid)
  next
    case sz: (Inr sz)
    show thesis
    proof (cases "offset_param ?sp")
      case (Inl e)
      with assms sz offset show thesis
        by (cases rule: offset_param_cases [of ?sp]) (auto simp: userUploadsGet_offset_invalid)
    next
      case off: (Inr off)
      show thesis
      proof (cases "before_param Date_parse ?sp")
        case (Inl e)
        with assms sz off before show thesis
          by (cases rule: before_param_cases [of ?sp Date_parse])
             (auto simp: userUploadsGet_before_invalid)
      next
        case bef: (Inr bef)
        show thesis
        proof (cases "after_param Date_parse ?sp")
          case (Inl e)
          with assms sz off bef after show thesis
            by (cases rule: after_param_cases [of ?sp Date_parse])
               (auto simp: userUploadsGet_after_invalid)
        next
          case aft: (Inr aft)
          from assms show thesis
            by (simp add: userUploadsGet_valid [OF sz off bef aft refl] split: sum.splits)
        qed
      qed
    qed
  qed
qed

lemma parseInt_examples:
  "parseInt ''0'' = Some 0" "parseInt ''1'' = Some 1" "parseInt ''5'' = Some 5"
  "parseInt ''10'' = Some 10" "parseInt ''30'' = Some 30" "parseInt ''40'' = Some 40"
  "parseInt ''1000'' = Some 1000" "parseInt ''1001'' = Some 1001"
  "parseInt ''2000'' = Some 2000" "parseInt ''abc'' = None"
  "parseInt ''25abc'' = Some 25" "parseInt ''25.9'' = Some 25"
  by (simp_all add: parseInt_def trimStart.simps StrWhiteSpaceChar_len_def digit_value_def
      radix_value_def)

section \<open>The pagination links\<close>

text \<open>
  C1. Whenever the store answers and the handler responds, the \<open>Next_link\<close> header is
  present exactly when the offset passed to the store plus the number of uploads
  returned is below the count returned, and it is then the link to the same path with
  the same size and the offset advanced by the size.
\<close>

theorem next_link_iff_more_uploads:
  assumes "userUploadsGet Date_parse env request = (Inr response, calls)"
  shows "\<exists>opts data.
           calls = [(auth_user_id request, opts)] \<and>
           db_listUploads env (auth_user_id request) opts = Inr data \<and>
           Next_link (headers response) =
             (if offset opts + int (length (uploads data)) < count data
              then Some (''<'' @ pathname request @ ''?size='' @ Number_toString (size' opts)
                          @ ''&offset='' @ Number_toString (offset opts + size' opts)
                          @ ''>; rel=\"next\"'')
              else None)"
  using assms by (rule userUploadsGet_response) (simp add: link_text add.commute)

theorem next_link_iff_more_uploads_witness:
  "\<exists>response calls opts data.
     userUploadsGet example_Date_parse (example_db 30) (example_request [])
       = (Inr response, calls) \<and>
     calls = [(''1'', opts)] \<and> db_listUploads (example_db 30) ''1'' opts = Inr data \<and>
     offset opts + int (length (uploads data)) < count data \<and>
     Next_link (headers response) = Some ''</user/uploads?size=25&offset=25>; rel=\"next\"''"
proof -
  have run: "userUploadsGet example_Date_parse (example_db 30) (example_request []) =
     (Inr \<lparr> body = replicate 25 (),
            headers = \<lparr> Count = 30, Size = 25, Offset = 0,
              Next_link = Some ''</user/uploads?size=25&offset=25>; rel=\"next\"'',
              Prev_link = None \<rparr> \<rparr>,
      [(''1'', \<lparr> size' = 25, offset = 0, before = None, after = None,
                sortBy = ''Date'', sortOrder = ''Desc'' \<rparr>)])"
    by (simp add: example_defs)
  from next_link_iff_more_uploads [OF run] show ?thesis
    unfolding run by (simp add: example_db_def)
qed

text \<open>
  C2. Whenever the handler responds, the \<open>Prev_link\<close> header is present exactly when
  the offset passed to the store is not 0, and it is then the link to the same path with
  the same size and the offset reduced by the size. The reduced offset can be negative:
  with the default size 25, the request \<open>?offset=5\<close> is answered with a link to offset
  \<open>-20\<close>.
\<close>

theorem prev_link_iff_offset_nonzero:
  "(userUploadsGet Date_parse env request = (Inr response, calls) \<longrightarrow>
      (\<exists>opts data.
          calls = [(auth_user_id request, opts)] \<and>
          db_listUploads env (auth_user_id request) opts = Inr data \<and>
          Prev_link (headers response) =
            (if offset opts \<noteq> 0
             then Some (''<'' @ pathname request @ ''?size='' @ Number_toString (size' opts)
                         @ ''&offset='' @ Number_toString (offset opts - size' opts)
                         @ ''>; rel=\"next\"'')
             else None)))
   \<and> (\<exists>response calls.
         userUploadsGet example_Date_parse (example_db 100) (example_request [(''offset'', ''5'')])
           = (Inr response, calls) \<and>
         Offset (headers response) = 5 \<and> Size (headers response) = 25 \<and>
         Prev_link (headers response) = Some ''</user/uploads?size=25&offset=-20>; rel=\"next\"'')"
proof (intro conjI impI)
  assume "userUploadsGet Date_parse env request = (Inr response, calls)"
  then show "\<exists>opts data.
          calls = [(auth_user_id request, opts)] \<and>
          db_listUploads env (auth_user_id request) opts = Inr data \<and>
          Prev_link (headers response) =
            (if offset opts \<noteq> 0
             then Some (''<'' @ pathname request @ ''?size='' @ Number_toString (size' opts)
                         @ ''&offset='' @ Number_toString (offset opts - size' opts)
                         @ ''>; rel=\"next\"'')
             else None)"
    by (rule userUploadsGet_response) (simp add: link_text)
next
  show "\<exists>response calls.
         userUploadsGet example_Date_parse (example_db 100) (example_request [(''offset'', ''5'')])
           = (Inr response, calls) \<and>
         Offset (headers response) = 5 \<and> Size (headers response) = 25 \<and>
         Prev_link (headers response) = Some ''</user/uploads?size=25&offset=-20>; rel=\"next\"''"
    by (simp add: example_defs parseInt_examples)
qed

theorem prev_link_iff_offset_nonzero_witness:
  "\<exists>response calls opts data.
     userUploadsGet example_Date_parse (example_db 100)
         (example_request [(''size'', ''10''), (''offset'', ''30'')])
       = (Inr response, calls) \<and>
     calls = [(''1'', opts)] \<and> db_listUploads (example_db 100) ''1'' opts = Inr data \<and>
     offset opts \<noteq> 0 \<and>
     Prev_link (headers response) = Some ''</user/uploads?size=10&offset=20>; rel=\"next\"''"
proof -
  have run: "userUploadsGet example_Date_parse (example_db 100)
       (example_request [(''size'', ''10''), (''offset'', ''30'')]) =
     (Inr \<lparr> body = replicate 10 (),
            headers = \<lparr> Count = 100, Size = 10, Offset = 30,
              Next_link = Some ''</user/uploads?size=10&offset=40>; rel=\"next\"'',
              Prev_link = Some ''</user/uploads?size=10&offset=20>; rel=\"next\"'' \<rparr> \<rparr>,
      [(''1'', \<lparr> size' = 10, offset = 30, before = None, after = None,
                sortBy = ''Date'', sortOrder = ''Desc'' \<rparr>)])"
    by (simp add: example_defs parseInt_examples)
  from prev_link_iff_offset_nonzero [THEN conjunct1, THEN mp, OF run] show ?thesis
    unfolding run by (simp add: example_db_def)
qed

section \<open>Validation of the query parameters\<close>

text \<open>
  C3. When the request has an \<open>offset\<close> parameter whose parsed value is NaN, at most 0
  or above 1000, the handler fails with status 400 and does not call the store (with
  the message of the offset when the size is valid; the size is checked first). The
  explicit value \<open>0\<close> is one such value. A parsed value from 1 to 1000 never raises the
  offset error. When the parameter is absent, the offset error is not raised, every
  call of the store has offset 0 and so has every response.
\<close>

theorem offset_validated:
  "(searchParams_get (searchParams request) ''offset'' = Some v \<and>
      (parseInt v = None \<or> (\<exists>n. parseInt v = Some n \<and> (n \<le> 0 \<or> 1000 < n))) \<longrightarrow>
      (\<exists>msg. userUploadsGet Date_parse env request = (Inl (Error_status msg 400), [])) \<and>
      (\<not> isl (size_param (searchParams request)) \<longrightarrow>
         userUploadsGet Date_parse env request
           = (Inl (Error_status ''invalid page offset'' 400), [])))
   \<and> (searchParams_get (searchParams request) ''offset'' = Some ''0'' \<longrightarrow>
      (\<exists>msg. userUploadsGet Date_parse env request = (Inl (Error_status msg 400), [])))
   \<and> (searchParams_get (searchParams request) ''offset'' = Some v \<and>
      parseInt v = Some n \<and> 0 < n \<and> n \<le> 1000 \<longrightarrow>
      fst (userUploadsGet Date_parse env request) \<noteq> Inl (Error_status ''invalid page offset'' 400))
   \<and> (searchParams_get (searchParams request) ''offset'' = None \<longrightarrow>
      fst (userUploadsGet Date_parse env request) \<noteq> Inl (Error_status ''invalid page offset'' 400) \<and>
      (\<forall>call \<in> set (snd (userUploadsGet Date_parse env request)). offset (snd call) = 0) \<and>
      (\<forall>response. fst (userUploadsGet Date_parse env request) = Inr response \<longrightarrow>
         Offset (headers response) = 0))"
proof -
  let ?sp = "searchParams request"
  let ?R = "userUploadsGet Date_parse env request"
  have invalid: "(\<exists>msg. ?R = (Inl (Error_status msg 400), [])) \<and>
      (\<not> isl (size_param ?sp) \<longrightarrow> ?R = (Inl (Error_status ''invalid page offset'' 400), []))"
    if v: "searchParams_get ?sp ''offset'' = Some v"
      and bad: "parseInt v = None \<or> (\<exists>n. parseInt v = Some n \<and> (n \<le> 0 \<or> 1000 < n))"
    for v
  proof -
    from v bad have off: "offset_param ?sp = Inl (Error_status ''invalid page offset'' 400)"
      by (cases rule: offset_param_cases [of ?sp]) auto
    show ?thesis
    proof (cases "size_param ?sp")
      case (Inl e)
      then show ?thesis
        by (cases rule: size_param_cases [of ?sp]) (auto simp: userUploadsGet_size_invalid)
    next
      case (Inr sz)
      with off show ?thesis by (simp add: userUploadsGet_offset_invalid)
    qed
  qed
  have not_raised: "fst ?R \<noteq> Inl (Error_status ''invalid page offset'' 400)"
    if "offset_param ?sp = Inr off" for off
  proof
    assume "fst ?R = Inl (Error_status ''invalid page offset'' 400)"
    then show False
      using that by (cases rule: userUploadsGet_Error_status_cases) simp_all
  qed
  have valid: "fst ?R \<noteq> Inl (Error_status ''invalid page offset'' 400)"
    if "searchParams_get ?sp ''offset'' = Some v" "parseInt v = Some n" "0 < n" "n \<le> 1000"
  proof -
    from that have "offset_param ?sp = Inr n"
      by (cases rule: offset_param_cases [of ?sp]) auto
    then show ?thesis by (rule not_raised)
  qed
  have absent: "fst ?R \<noteq> Inl (Error_status ''invalid page offset'' 400) \<and>
      (\<forall>call \<in> set (snd ?R). offset (snd call) = 0) \<and>
      (\<forall>response. fst ?R = Inr response \<longrightarrow> Offset (headers response) = 0)"
    if none: "searchParams_get ?sp ''offset'' = None"
  proof -
    from none have off: "offset_param ?sp = Inr 0"
      by (cases rule: offset_param_cases [of ?sp]) auto
    have "offset (snd call) = 0" if "call \<in> set (snd ?R)" for call
      using that by (rule userUploadsGet_calls) (use off in simp)
    moreover have "Offset (headers response) = 0" if "fst ?R = Inr response" for response
    proof -
      from that have "?R = (Inr response, snd ?R)" by (metis prod.collapse)
      then show ?thesis by (rule userUploadsGet_response) (use off in simp)
    qed
    ultimately show ?thesis using not_raised [OF off] by blast
  qed
  from invalid parseInt_examples(1) valid absent show ?thesis by blast
qed

theorem offset_validated_witness:
  "userUploadsGet example_Date_parse (example_db 30) (example_request [(''offset'', ''1001'')])
     = (Inl (Error_status ''invalid page offset'' 400), [])
   \<and> userUploadsGet example_Date_parse (example_db 30) (example_request [(''offset'', ''abc'')])
     = (Inl (Error_status ''invalid page offset'' 400), [])
   \<and> userUploadsGet example_Date_parse (example_db 30) (example_request [(''offset'', ''0'')])
     = (Inl (Error_status ''invalid page offset'' 400), [])
   \<and> fst (userUploadsGet example_Date_parse (example_db 30)
            (example_request [(''offset'', ''1000'')]))
     \<noteq> Inl (Error_status ''invalid page offset'' 400)
   \<and> fst (userUploadsGet example_Date_parse (example_db 30) (example_request []))
     \<noteq> Inl (Error_status ''invalid page offset'' 400)"
proof -
  note defs = example_request_def searchParams_get_def searchParams_has_def size_param_def
    parseInt_examples
  let ?D = example_Date_parse and ?env = "example_db 30"
  have "userUploadsGet ?D ?env (example_request [(''offset'', ''1001'')])
     = (Inl (Error_status ''invalid page offset'' 400), [])"
    using offset_validated [where request = "example_request [(''offset'', ''1001'')]"
        and v = "''1001''" and Date_parse = ?D and env = ?env]
    by (simp add: defs)
  moreover have "userUploadsGet ?D ?env (example_request [(''offset'', ''abc'')])
     = (Inl (Error_status ''invalid page offset'' 400), [])"
    using offset_validated [where request = "example_request [(''offset'', ''abc'')]"
        and v = "''abc''" and Date_parse = ?D and env = ?env]
    by (simp add: defs)
  moreover have "userUploadsGet ?D ?env (example_request [(''offset'', ''0'')])
     = (Inl (Error_status ''invalid page offset'' 400), [])"
    using offset_validated [where request = "example_request [(''offset'', ''0'')]"
        and v = "''0''" and Date_parse = ?D and env = ?env]
    by (simp add: defs)
  moreover have "fst (userUploadsGet ?D ?env (example_request [(''offset'', ''1000'')]))
     \<noteq> Inl (Error_status ''invalid page offset'' 400)"
    using offset_validated [where request = "example_request [(''offset'', ''1000'')]"
        and v = "''1000''" and n = 1000 and Date_parse = ?D and env = ?env]
    by (simp add: defs)
  moreover have "fst (userUploadsGet ?D ?env (example_request []))
     \<noteq> Inl (Error_status ''invalid page offset'' 400)"
    using offset_validated [where request = "example_request []" and Date_parse = ?D
        and env = ?env]
    by (simp add: defs)
  ultimately show ?thesis by blast
qed

text \<open>
  C4. When the request has a \<open>size\<close> parameter whose parsed value is NaN, at most 0 or
  above 1000, the handler fails with status 400 and the message of the size, and does
  not call the store. A parsed value from 1 to 1000 is the size the store is called
  with and the response reports. When the parameter is absent the size is 25; and with
  a valid or absent size and no \<open>offset\<close> parameter, the offset of the response is 0.
\<close>

theorem size_validated:
  "(searchParams_get (searchParams request) ''size'' = Some v \<and>
      (parseInt v = None \<or> (\<exists>n. parseInt v = Some n \<and> (n \<le> 0 \<or> 1000 < n))) \<longrightarrow>
      userUploadsGet Date_parse env request = (Inl (Error_status ''invalid page size'' 400), []))
   \<and> (searchParams_get (searchParams request) ''size'' = Some v \<and>
      parseInt v = Some n \<and> 0 < n \<and> n \<le> 1000 \<longrightarrow>
      fst (userUploadsGet Date_parse env request) \<noteq> Inl (Error_status ''invalid page size'' 400) \<and>
      (\<forall>call \<in> set (snd (userUploadsGet Date_parse env request)). size' (snd call) = n) \<and>
      (\<forall>response. fst (userUploadsGet Date_parse env request) = Inr response \<longrightarrow>
         Size (headers response) = n \<and>
         (searchParams_get (searchParams request) ''offset'' = None \<longrightarrow>
            Offset (headers response) = 0)))
   \<and> (searchParams_get (searchParams request) ''size'' = None \<longrightarrow>
      fst (userUploadsGet Date_parse env request) \<noteq> Inl (Error_status ''invalid page size'' 400) \<and>
      (\<forall>call \<in> set (snd (userUploadsGet Date_parse env request)). size' (snd call) = 25) \<and>
      (\<forall>response. fst (userUploadsGet Date_parse env request) = Inr response \<longrightarrow>
         Size (headers response) = 25 \<and>
         (searchParams_get (searchParams request) ''offset'' = None \<longrightarrow>
            Offset (headers response) = 0)))"
proof -
  let ?sp = "searchParams request"
  let ?R = "userUploadsGet Date_parse env request"
  have invalid: "?R = (Inl (Error_status ''invalid page size'' 400), [])"
    if "searchParams_get ?sp ''size'' = Some v"
      and "parseInt v = None \<or> (\<exists>n. parseInt v = Some n \<and> (n \<le> 0 \<or> 1000 < n))"
  proof -
    from that have "size_param ?sp = Inl (Error_status ''invalid page size'' 400)"
      by (cases rule: size_param_cases [of ?sp]) auto
    then show ?thesis by (rule userUploadsGet_size_invalid)
  qed
  have accepted: "fst ?R \<noteq> Inl (Error_status ''invalid page size'' 400) \<and>
      (\<forall>call \<in> set (snd ?R). size' (snd call) = sz) \<and>
      (\<forall>response. fst ?R = Inr response \<longrightarrow>
         Size (headers response) = sz \<and>
         (searchParams_get ?sp ''offset'' = None \<longrightarrow> Offset (headers response) = 0))"
    if sz: "size_param ?sp = Inr sz" for sz
  proof -
    have "fst ?R \<noteq> Inl (Error_status ''invalid page size'' 400)"
    proof
      assume "fst ?R = Inl (Error_status ''invalid page size'' 400)"
      then show False
        using sz by (cases rule: userUploadsGet_Error_status_cases) simp_all
    qed
    moreover have "size' (snd call) = sz" if "call \<in> set (snd ?R)" for call
      using that by (rule userUploadsGet_calls) (use sz in simp)
    moreover have "Size (headers response) = sz \<and>
         (searchParams_get ?sp ''offset'' = None \<longrightarrow> Offset (headers response) = 0)"
      if "fst ?R = Inr response" for response
    proof -
      from that have R: "?R = (Inr response, snd ?R)" by (metis prod.collapse)
      from R have "Size (headers response) = sz"
        by (rule userUploadsGet_response) (use sz in simp)
      moreover have "Offset (headers response) = 0"
        if none: "searchParams_get ?sp ''offset'' = None"
      proof -
        from none have off: "offset_param ?sp = Inr 0"
          by (cases rule: offset_param_cases [of ?sp]) auto
        from R show ?thesis by (rule userUploadsGet_response) (use off in simp)
      qed
      ultimately show ?thesis by blast
    qed
    ultimately show ?thesis by blast
  qed
  have valid: "size_param ?sp = Inr n"
    if "searchParams_get ?sp ''size'' = Some v" "parseInt v = Some n" "0 < n" "n \<le> 1000"
    using that by (cases rule: size_param_cases [of ?sp]) auto
  have absent: "size_param ?sp = Inr 25" if "searchParams_get ?sp ''size'' = None"
    using that by (cases rule: size_param_cases [of ?sp]) auto
  show ?thesis
    using invalid accepted [OF valid] accepted [OF absent] by blast
qed

theorem size_validated_witness:
  "userUploadsGet example_Date_parse (example_db 30) (example_request [(''size'', ''0'')])
     = (Inl (Error_status ''invalid page size'' 400), [])
   \<and> userUploadsGet example_Date_parse (example_db 30) (example_request [(''size'', ''abc'')])
     = (Inl (Error_status ''invalid page size'' 400), [])
   \<and> userUploadsGet example_Date_parse (example_db 30) (example_request [(''size'', ''1001'')])
     = (Inl (Error_status ''invalid page size'' 400), [])
   \<and> (\<exists>response calls.
        userUploadsGet example_Date_parse (example_db 30) (example_request [(''size'', ''10'')])
          = (Inr response, calls) \<and>
        Size (headers response) = 10 \<and> Offset (headers response) = 0 \<and>
        map (size' \<circ> snd) calls = [10])
   \<and> (\<exists>response calls.
        userUploadsGet example_Date_parse (example_db 30) (example_request [])
          = (Inr response, calls) \<and>
        Size (headers response) = 25 \<and> Offset (headers response) = 0 \<and>
        map (size' \<circ> snd) calls = [25])"
proof -
  note defs = example_request_def searchParams_get_def parseInt_examples
  let ?D = example_Date_parse and ?env = "example_db 30"
  have "userUploadsGet ?D ?env (example_request [(''size'', ''0'')])
     = (Inl (Error_status ''invalid page size'' 400), [])"
    using size_validated [where request = "example_request [(''size'', ''0'')]"
        and v = "''0''" and Date_parse = ?D and env = ?env]
    by (simp add: defs)
  moreover have "userUploadsGet ?D ?env (example_request [(''size'', ''abc'')])
     = (Inl (Error_status ''invalid page size'' 400), [])"
    using size_validated [where request = "example_request [(''size'', ''abc'')]"
        and v = "''abc''" and Date_parse = ?D and env = ?env]
    by (simp add: defs)
  moreover have "userUploadsGet ?D ?env (example_request [(''size'', ''1001'')])
     = (Inl (Error_status ''invalid page size'' 400), [])"
    using size_validated [where request = "example_request [(''size'', ''1001'')]"
        and v = "''1001''" and Date_parse = ?D and env = ?env]
    by (simp add: defs)
  moreover have "\<exists>response calls.
        userUploadsGet ?D ?env (example_request [(''size'', ''10'')]) = (Inr response, calls) \<and>
        Size (headers response) = 10 \<and> Offset (headers response) = 0 \<and>
        map (size' \<circ> snd) calls = [10]"
  proof -
    obtain response calls
      where run: "userUploadsGet ?D ?env (example_request [(''size'', ''10'')])
        = (Inr response, calls)" and one: "length calls = 1"
      by (simp add: example_defs parseInt_examples)
    from size_validated [where request = "example_request [(''size'', ''10'')]"
        and v = "''10''" and n = 10 and Date_parse = ?D and env = ?env]
    have "Size (headers response) = 10 \<and> Offset (headers response) = 0 \<and>
        (\<forall>call \<in> set calls. size' (snd call) = 10)"
      by (simp add: defs run [unfolded example_request_def])
    with run one show ?thesis
      by (cases calls) auto
  qed
  moreover have "\<exists>response calls.
        userUploadsGet ?D ?env (example_request []) = (Inr response, calls) \<and>
        Size (headers response) = 25 \<and> Offset (headers response) = 0 \<and>
        map (size' \<circ> snd) calls = [25]"
  proof -
    obtain response calls
      where run: "userUploadsGet ?D ?env (example_request []) = (Inr response, calls)"
        and one: "length calls = 1"
      by (simp add: example_defs)
    from size_validated [where request = "example_request []" and Date_parse = ?D
        and env = ?env]
    have "Size (headers response) = 25 \<and> Offset (headers response) = 0 \<and>
        (\<forall>call \<in> set calls. size' (snd call) = 25)"
      by (simp add: defs run [unfolded example_request_def])
    with run one show ?thesis
      by (cases calls) auto
  qed
  ultimately show ?thesis by blast
qed

text \<open>
  C5. The validations run in the order size, offset, before, after, and the first one
  that fails decides the error: a later parameter is not looked at. Whenever the
  handler throws an error with a status, the status is 400 and the store has not been
  called; when all four validations pass, the store is called exactly once.
  (\<open>isl\<close> of a validation says that it fails; \<open>isl_size_param\<close> to
  \<open>isl_after_param\<close> say when.)
\<close>

theorem validation_order_before_store:
  "(isl (size_param (searchParams request)) \<longrightarrow>
      userUploadsGet Date_parse env request = (Inl (Error_status ''invalid page size'' 400), []))
   \<and> (\<not> isl (size_param (searchParams request)) \<and>
      isl (offset_param (searchParams request)) \<longrightarrow>
      userUploadsGet Date_parse env request = (Inl (Error_status ''invalid page offset'' 400), []))
   \<and> (\<not> isl (size_param (searchParams request)) \<and>
      \<not> isl (offset_param (searchParams request)) \<and>
      isl (before_param Date_parse (searchParams request)) \<longrightarrow>
      userUploadsGet Date_parse env request = (Inl (Error_status ''invalid before date'' 400), []))
   \<and> (\<not> isl (size_param (searchParams request)) \<and>
      \<not> isl (offset_param (searchParams request)) \<and>
      \<not> isl (before_param Date_parse (searchParams request)) \<and>
      isl (after_param Date_parse (searchParams request)) \<longrightarrow>
      userUploadsGet Date_parse env request = (Inl (Error_status ''invalid after date'' 400), []))
   \<and> (\<not> isl (size_param (searchParams request)) \<and>
      \<not> isl (offset_param (searchParams request)) \<and>
      \<not> isl (before_param Date_parse (searchParams request)) \<and>
      \<not> isl (after_param Date_parse (searchParams request)) \<longrightarrow>
      (\<exists>opts. snd (userUploadsGet Date_parse env request) = [(auth_user_id request, opts)]))
   \<and> (\<forall>msg st. fst (userUploadsGet Date_parse env request) = Inl (Error_status msg st) \<longrightarrow>
      st = 400 \<and> snd (userUploadsGet Date_parse env request) = [])"
proof -
  let ?sp = "searchParams request"
  let ?R = "userUploadsGet Date_parse env request"
  have 1: "?R = (Inl (Error_status ''invalid page size'' 400), [])"
    if "isl (size_param ?sp)"
    using that
    by (cases rule: size_param_cases [of ?sp]) (simp_all add: userUploadsGet_size_invalid)
  have 2: "?R = (Inl (Error_status ''invalid page offset'' 400), [])"
    if "\<not> isl (size_param ?sp)" "isl (offset_param ?sp)"
    using that
    by (cases "size_param ?sp"; cases rule: offset_param_cases [of ?sp])
       (simp_all add: userUploadsGet_offset_invalid)
  have 3: "?R = (Inl (Error_status ''invalid before date'' 400), [])"
    if "\<not> isl (size_param ?sp)" "\<not> isl (offset_param ?sp)"
      "isl (before_param Date_parse ?sp)"
    using that
    by (cases "size_param ?sp"; cases "offset_param ?sp";
        cases rule: before_param_cases [of ?sp Date_parse])
       (simp_all add: userUploadsGet_before_invalid)
  have 4: "?R = (Inl (Error_status ''invalid after date'' 400), [])"
    if "\<not> isl (size_param ?sp)" "\<not> isl (offset_param ?sp)"
      "\<not> isl (before_param Date_parse ?sp)" "isl (after_param Date_parse ?sp)"
    using that
    by (cases "size_param ?sp"; cases "offset_param ?sp"; cases "before_param Date_parse ?sp";
        cases rule: after_param_cases [of ?sp Date_parse])
       (simp_all add: userUploadsGet_after_invalid)
  have 5: "\<exists>opts. snd ?R = [(auth_user_id request, opts)]"
    if "\<not> isl (size_param ?sp)" "\<not> isl (offset_param ?sp)"
      "\<not> isl (before_param Date_parse ?sp)" "\<not> isl (after_param Date_parse ?sp)"
  proof -
    from that obtain sz off bef aft
      where ok: "size_param ?sp = Inr sz" "offset_param ?sp = Inr off"
        "before_param Date_parse ?sp = Inr bef" "after_param Date_parse ?sp = Inr aft"
      by (cases "size_param ?sp"; cases "offset_param ?sp"; cases "before_param Date_parse ?sp";
          cases "after_param Date_parse ?sp") simp_all
    show ?thesis
      by (simp add: userUploadsGet_valid [OF ok refl] split: sum.split)
  qed
  have 6: "st = 400 \<and> snd ?R = []" if "fst ?R = Inl (Error_status msg st)" for msg st
  proof -
    from that have "?R = (Inl (Error_status msg st), snd ?R)" by (metis prod.collapse)
    from userUploadsGet_Error_status [OF this] show ?thesis by simp
  qed
  from 1 2 3 4 5 6 show ?thesis by blast
qed

theorem validation_order_before_store_witness:
  "userUploadsGet example_Date_parse (example_db 30)
      (example_request [(''after'', ''x''), (''before'', ''y''), (''offset'', ''0''),
                        (''size'', ''1001'')])
     = (Inl (Error_status ''invalid page size'' 400), [])
   \<and> userUploadsGet example_Date_parse (example_db 30)
      (example_request [(''after'', ''x''), (''before'', ''y''), (''offset'', ''0''),
                        (''size'', ''10'')])
     = (Inl (Error_status ''invalid page offset'' 400), [])
   \<and> userUploadsGet example_Date_parse (example_db 30)
      (example_request [(''after'', ''x''), (''before'', ''not-a-date''), (''offset'', ''5''),
                        (''size'', ''10'')])
     = (Inl (Error_status ''invalid before date'' 400), [])
   \<and> userUploadsGet example_Date_parse (example_db 30)
      (example_request [(''after'', ''x''), (''before'', ''2021-01-01''), (''offset'', ''5''),
                        (''size'', ''10'')])
     = (Inl (Error_status ''invalid after date'' 400), [])
   \<and> (\<exists>opts. snd (userUploadsGet example_Date_parse (example_db 30)
                     (example_request [(''after'', ''2021-01-01''), (''before'', ''2021-01-01''),
                                       (''offset'', ''5''), (''size'', ''10'')]))
              = [(''1'', opts)])"
proof -
  note defs = example_request_def example_Date_parse_def searchParams_get_def
    searchParams_has_def size_param_def offset_param_def before_param_def after_param_def
    parseInt_examples
  note order = validation_order_before_store
  let ?D = example_Date_parse and ?env = "example_db 30"
  have "userUploadsGet ?D ?env
      (example_request [(''after'', ''x''), (''before'', ''y''), (''offset'', ''0''),
                        (''size'', ''1001'')])
     = (Inl (Error_status ''invalid page size'' 400), [])"
    by (rule order [THEN conjunct1, THEN mp]) (simp add: defs)
  moreover have "userUploadsGet ?D ?env
      (example_request [(''after'', ''x''), (''before'', ''y''), (''offset'', ''0''),
                        (''size'', ''10'')])
     = (Inl (Error_status ''invalid page offset'' 400), [])"
    by (rule order [THEN conjunct2, THEN conjunct1, THEN mp]) (simp add: defs)
  moreover have "userUploadsGet ?D ?env
      (example_request [(''after'', ''x''), (''before'', ''not-a-date''), (''offset'', ''5''),
                        (''size'', ''10'')])
     = (Inl (Error_status ''invalid before date'' 400), [])"
    by (rule order [THEN conjunct2, THEN conjunct2, THEN conjunct1, THEN mp]) (simp add: defs)
  moreover have "userUploadsGet ?D ?env
      (example_request [(''after'', ''x''), (''before'', ''2021-01-01''), (''offset'', ''5''),
                        (''size'', ''10'')])
     = (Inl (Error_status ''invalid after date'' 400), [])"
    by (rule order [THEN conjunct2, THEN conjunct2, THEN conjunct2, THEN conjunct1, THEN mp])
       (simp add: defs)
  moreover have "\<exists>opts. snd (userUploadsGet ?D ?env
                     (example_request [(''after'', ''2021-01-01''), (''before'', ''2021-01-01''),
                                       (''offset'', ''5''), (''size'', ''10'')]))
              = [(auth_user_id
                    (example_request [(''after'', ''2021-01-01''), (''before'', ''2021-01-01''),
                                      (''offset'', ''5''), (''size'', ''10'')]), opts)]"
    by (rule order [THEN conjunct2, THEN conjunct2, THEN conjunct2, THEN conjunct2,
          THEN conjunct1, THEN mp])
       (simp add: defs)
  ultimately show ?thesis by (simp add: example_request_def)
qed

text \<open>
  C6. Whenever the handler responds, each link header it sets has the form
  \<open><path?size=S&offset=O>; rel="next"\<close> with the size and the offset of the response:
  \<open>Next_link\<close> with \<open>O = offset + size\<close>, and \<open>Prev_link\<close>, under the same label
  \<open>rel="next"\<close>, with \<open>O = offset - size\<close>.
\<close>

theorem links_are_rel_next:
  assumes "userUploadsGet Date_parse env request = (Inr response, calls)"
  shows "(\<forall>l. Next_link (headers response) = Some l \<longrightarrow>
            l = ''<'' @ pathname request @ ''?size='' @ Number_toString (Size (headers response))
                @ ''&offset=''
                @ Number_toString (Offset (headers response) + Size (headers response))
                @ ''>; rel=\"next\"'')
       \<and> (\<forall>l. Prev_link (headers response) = Some l \<longrightarrow>
            l = ''<'' @ pathname request @ ''?size='' @ Number_toString (Size (headers response))
                @ ''&offset=''
                @ Number_toString (Offset (headers response) - Size (headers response))
                @ ''>; rel=\"next\"'')"
  using assms by (rule userUploadsGet_response) (simp add: link_text)

theorem links_are_rel_next_witness:
  "\<exists>response calls.
     userUploadsGet example_Date_parse (example_db 100)
         (example_request [(''size'', ''10''), (''offset'', ''30'')])
       = (Inr response, calls) \<and>
     Next_link (headers response) = Some ''</user/uploads?size=10&offset=40>; rel=\"next\"'' \<and>
     Prev_link (headers response) = Some ''</user/uploads?size=10&offset=20>; rel=\"next\"''"
proof -
  obtain response calls
    where run: "userUploadsGet example_Date_parse (example_db 100)
         (example_request [(''size'', ''10''), (''offset'', ''30'')]) = (Inr response, calls)"
      and h: "Size (headers response) = 10" "Offset (headers response) = 30"
        "Next_link (headers response) \<noteq> None" "Prev_link (headers response) \<noteq> None"
    by (simp add: example_defs parseInt_examples)
  from links_are_rel_next [OF run] h have
    "Next_link (headers response) = Some ''</user/uploads?size=10&offset=40>; rel=\"next\"''"
    "Prev_link (headers response) = Some ''</user/uploads?size=10&offset=20>; rel=\"next\"''"
    by (auto simp: example_request_def Number_toString_def decimal.simps)
  with run show ?thesis by blast
qed

section \<open>The dates\<close>

text \<open>
  C7. When the request has a \<open>before\<close> (or an \<open>after\<close>) parameter that does not parse
  as a date, the handler fails with status 400 and does not call the store (with the
  message of that date when everything checked before it is valid). Whenever the
  store is called and the request has the parameter, the parameter parses, and the
  value passed to the store is \<open>toISOString\<close> of the time parsed, whatever the spelling
  in the request.
\<close>

theorem dates_validated_and_normalized:
  "(searchParams_get (searchParams request) ''before'' = Some v \<and> Date_parse v = None \<longrightarrow>
      (\<exists>msg. userUploadsGet Date_parse env request = (Inl (Error_status msg 400), [])) \<and>
      (\<not> isl (size_param (searchParams request)) \<and>
       \<not> isl (offset_param (searchParams request)) \<longrightarrow>
         userUploadsGet Date_parse env request
           = (Inl (Error_status ''invalid before date'' 400), [])))
   \<and> (searchParams_get (searchParams request) ''after'' = Some v \<and> Date_parse v = None \<longrightarrow>
      (\<exists>msg. userUploadsGet Date_parse env request = (Inl (Error_status msg 400), [])) \<and>
      (\<not> isl (size_param (searchParams request)) \<and>
       \<not> isl (offset_param (searchParams request)) \<and>
       \<not> isl (before_param Date_parse (searchParams request)) \<longrightarrow>
         userUploadsGet Date_parse env request
           = (Inl (Error_status ''invalid after date'' 400), [])))
   \<and> (\<forall>call \<in> set (snd (userUploadsGet Date_parse env request)).
        (case searchParams_get (searchParams request) ''before'' of
           None \<Rightarrow> before (snd call) = None
         | Some b \<Rightarrow> \<exists>t. Date_parse b = Some t \<and> before (snd call) = Some (toISOString t)) \<and>
        (case searchParams_get (searchParams request) ''after'' of
           None \<Rightarrow> after (snd call) = None
         | Some a \<Rightarrow> \<exists>t. Date_parse a = Some t \<and> after (snd call) = Some (toISOString t)))"
proof -
  let ?sp = "searchParams request"
  let ?R = "userUploadsGet Date_parse env request"
  have failed: "\<exists>msg. ?R = (Inl (Error_status msg 400), [])"
    if "isl (size_param ?sp) \<or> isl (offset_param ?sp) \<or> isl (before_param Date_parse ?sp)
        \<or> isl (after_param Date_parse ?sp)"
  proof (cases "size_param ?sp")
    case (Inl e)
    then show ?thesis
      by (cases rule: size_param_cases [of ?sp]) (auto simp: userUploadsGet_size_invalid)
  next
    case sz: (Inr sz)
    show ?thesis
    proof (cases "offset_param ?sp")
      case (Inl e)
      with sz show ?thesis
        by (cases rule: offset_param_cases [of ?sp]) (auto simp: userUploadsGet_offset_invalid)
    next
      case off: (Inr off)
      show ?thesis
      proof (cases "before_param Date_parse ?sp")
        case (Inl e)
        with sz off show ?thesis
          by (cases rule: before_param_cases [of ?sp Date_parse])
             (auto simp: userUploadsGet_before_invalid)
      next
        case bef: (Inr bef)
        with sz off that have "isl (after_param Date_parse ?sp)" by simp
        with sz off bef show ?thesis
          by (cases rule: after_param_cases [of ?sp Date_parse])
             (auto simp: userUploadsGet_after_invalid)
      qed
    qed
  qed
  have b: "(\<exists>msg. ?R = (Inl (Error_status msg 400), [])) \<and>
      (\<not> isl (size_param ?sp) \<and> \<not> isl (offset_param ?sp) \<longrightarrow>
         ?R = (Inl (Error_status ''invalid before date'' 400), []))"
    if "searchParams_get ?sp ''before'' = Some v" "Date_parse v = None"
  proof -
    from that have bad: "before_param Date_parse ?sp = Inl (Error_status ''invalid before date'' 400)"
      by (cases rule: before_param_cases [of ?sp Date_parse]) auto
    then have "\<exists>msg. ?R = (Inl (Error_status msg 400), [])"
      by (intro failed) simp
    moreover have "?R = (Inl (Error_status ''invalid before date'' 400), [])"
      if "\<not> isl (size_param ?sp)" "\<not> isl (offset_param ?sp)"
      using that bad
      by (cases "size_param ?sp"; cases "offset_param ?sp")
         (simp_all add: userUploadsGet_before_invalid)
    ultimately show ?thesis by blast
  qed
  have a: "(\<exists>msg. ?R = (Inl (Error_status msg 400), [])) \<and>
      (\<not> isl (size_param ?sp) \<and> \<not> isl (offset_param ?sp) \<and>
       \<not> isl (before_param Date_parse ?sp) \<longrightarrow>
         ?R = (Inl (Error_status ''invalid after date'' 400), []))"
    if "searchParams_get ?sp ''after'' = Some v" "Date_parse v = None"
  proof -
    from that have bad: "after_param Date_parse ?sp = Inl (Error_status ''invalid after date'' 400)"
      by (cases rule: after_param_cases [of ?sp Date_parse]) auto
    then have "\<exists>msg. ?R = (Inl (Error_status msg 400), [])"
      by (intro failed) simp
    moreover have "?R = (Inl (Error_status ''invalid after date'' 400), [])"
      if "\<not> isl (size_param ?sp)" "\<not> isl (offset_param ?sp)"
        "\<not> isl (before_param Date_parse ?sp)"
      using that bad
      by (cases "size_param ?sp"; cases "offset_param ?sp"; cases "before_param Date_parse ?sp")
         (simp_all add: userUploadsGet_after_invalid)
    ultimately show ?thesis by blast
  qed
  have c: "(case searchParams_get ?sp ''before'' of
           None \<Rightarrow> before (snd call) = None
         | Some b \<Rightarrow> \<exists>t. Date_parse b = Some t \<and> before (snd call) = Some (toISOString t)) \<and>
        (case searchParams_get ?sp ''after'' of
           None \<Rightarrow> after (snd call) = None
         | Some a \<Rightarrow> \<exists>t. Date_parse a = Some t \<and> after (snd call) = Some (toISOString t))"
    if "call \<in> set (snd ?R)" for call
    using that
  proof (rule userUploadsGet_calls)
    fix sz off bef aft
    assume bef: "before_param Date_parse ?sp = Inr bef"
      and aft: "after_param Date_parse ?sp = Inr aft"
      and call: "call = (auth_user_id request,
             \<lparr> size' = sz, offset = off, before = bef, after = aft,
               sortBy = get_or ?sp ''sortBy'' ''Date'',
               sortOrder = get_or ?sp ''sortOrder'' ''Desc'' \<rparr>)"
    from bef have "case searchParams_get ?sp ''before'' of
           None \<Rightarrow> bef = None
         | Some b \<Rightarrow> \<exists>t. Date_parse b = Some t \<and> bef = Some (toISOString t)"
      by (cases rule: before_param_cases [of ?sp Date_parse]) auto
    moreover from aft have "case searchParams_get ?sp ''after'' of
           None \<Rightarrow> aft = None
         | Some a \<Rightarrow> \<exists>t. Date_parse a = Some t \<and> aft = Some (toISOString t)"
      by (cases rule: after_param_cases [of ?sp Date_parse]) auto
    ultimately show ?thesis by (auto simp: call split: option.splits)
  qed
  from a b c show ?thesis by blast
qed

theorem dates_validated_and_normalized_witness:
  "userUploadsGet example_Date_parse (example_db 30)
      (example_request [(''before'', ''not-a-date'')])
     = (Inl (Error_status ''invalid before date'' 400), [])
   \<and> userUploadsGet example_Date_parse (example_db 30)
      (example_request [(''after'', ''not-a-date'')])
     = (Inl (Error_status ''invalid after date'' 400), [])
   \<and> (\<exists>response opts.
        userUploadsGet example_Date_parse (example_db 30)
            (example_request [(''before'', ''2021-01-01''), (''after'', ''2021-01-01'')])
          = (Inr response, [(''1'', opts)]) \<and>
        before opts = Some ''2021-01-01T00:00:00.000Z'' \<and>
        after opts = Some ''2021-01-01T00:00:00.000Z'')"
proof -
  note defs = example_request_def example_Date_parse_def searchParams_get_def
    searchParams_has_def size_param_def offset_param_def before_param_def
  note dates = dates_validated_and_normalized
  let ?D = example_Date_parse and ?env = "example_db 30"
  have "userUploadsGet ?D ?env (example_request [(''before'', ''not-a-date'')])
     = (Inl (Error_status ''invalid before date'' 400), [])"
    using dates [where Date_parse = ?D and env = ?env and v = "''not-a-date''"
        and request = "example_request [(''before'', ''not-a-date'')]", THEN conjunct1]
    by (simp add: defs)
  moreover have "userUploadsGet ?D ?env (example_request [(''after'', ''not-a-date'')])
     = (Inl (Error_status ''invalid after date'' 400), [])"
    using dates [where Date_parse = ?D and env = ?env and v = "''not-a-date''"
        and request = "example_request [(''after'', ''not-a-date'')]",
        THEN conjunct2, THEN conjunct1]
    by (simp add: defs)
  moreover have "\<exists>response opts.
        userUploadsGet ?D ?env
            (example_request [(''before'', ''2021-01-01''), (''after'', ''2021-01-01'')])
          = (Inr response, [(''1'', opts)]) \<and>
        before opts = Some ''2021-01-01T00:00:00.000Z'' \<and>
        after opts = Some ''2021-01-01T00:00:00.000Z''"
  proof -
    have iso: "toISOString 1609459200000 = ''2021-01-01T00:00:00.000Z''"
      by code_simp
    obtain response opts
      where run: "userUploadsGet ?D ?env
            (example_request [(''before'', ''2021-01-01''), (''after'', ''2021-01-01'')])
          = (Inr response, [(''1'', opts)])"
      by (simp add: example_defs)
    from dates [where Date_parse = ?D and env = ?env and request =
          "example_request [(''before'', ''2021-01-01''), (''after'', ''2021-01-01'')]",
        THEN conjunct2, THEN conjunct2]
    have "before opts = Some ''2021-01-01T00:00:00.000Z'' \<and>
        after opts = Some ''2021-01-01T00:00:00.000Z''"
      unfolding run by (simp add: example_request_def example_Date_parse_def
          searchParams_get_def iso)
    with run show ?thesis by blast
  qed
  ultimately show ?thesis by blast
qed

section \<open>Following the links\<close>

text \<open>
  C8. An accepted request whose next link is not an accepted request. The store holds
  5000 uploads; the request \<open>?size=1000&offset=1000\<close> passes validation and is answered
  with a next link to \<open>?size=1000&offset=2000\<close>; the request with these two parameters
  is rejected at the offset: 2000 is above the bound 1000 of the handler's own check.
  It is so whenever a response has a next link and its offset plus its size exceeds
  1000: the request made of the link's two parameters fails with the offset error.
\<close>

theorem next_link_rejected_when_followed:
  "((\<exists>response calls.
       userUploadsGet example_Date_parse (example_db 5000)
           (example_request [(''size'', ''1000''), (''offset'', ''1000'')])
         = (Inr response, calls) \<and>
       Next_link (headers response)
         = Some ''</user/uploads?size=1000&offset=2000>; rel=\"next\"'')
    \<and> userUploadsGet example_Date_parse (example_db 5000)
          (example_request [(''size'', ''1000''), (''offset'', ''2000'')])
        = (Inl (Error_status ''invalid page offset'' 400), []))
   \<and> (userUploadsGet Date_parse env request = (Inr response, calls) \<and>
      Next_link (headers response) = Some l \<and>
      1000 < Offset (headers response) + Size (headers response) \<longrightarrow>
      l = ''<'' @ pathname request @ ''?size='' @ Number_toString (Size (headers response))
          @ ''&offset=''
          @ Number_toString (Offset (headers response) + Size (headers response))
          @ ''>; rel=\"next\"'' \<and>
      userUploadsGet Date_parse env
          (request \<lparr> searchParams :=
             [(''size'', Number_toString (Size (headers response))),
              (''offset'',
               Number_toString (Offset (headers response) + Size (headers response)))] \<rparr>)
        = (Inl (Error_status ''invalid page offset'' 400), []))"
proof (intro conjI impI)
  show "\<exists>response calls.
       userUploadsGet example_Date_parse (example_db 5000)
           (example_request [(''size'', ''1000''), (''offset'', ''1000'')])
         = (Inr response, calls) \<and>
       Next_link (headers response)
         = Some ''</user/uploads?size=1000&offset=2000>; rel=\"next\"''"
    by (simp add: example_defs parseInt_examples)
  show "userUploadsGet example_Date_parse (example_db 5000)
          (example_request [(''size'', ''1000''), (''offset'', ''2000'')])
        = (Inl (Error_status ''invalid page offset'' 400), [])"
    by (simp add: example_defs parseInt_examples)
next
  assume a: "userUploadsGet Date_parse env request = (Inr response, calls) \<and>
      Next_link (headers response) = Some l \<and>
      1000 < Offset (headers response) + Size (headers response)"
  let ?S = "Size (headers response)" and ?N = "Offset (headers response) + Size (headers response)"
  let ?sp = "[(''size'', Number_toString ?S), (''offset'', Number_toString ?N)]"
  from a have run: "userUploadsGet Date_parse env request = (Inr response, calls)" by simp
  from run have S: "size_param (searchParams request) = Inr ?S"
    by (rule userUploadsGet_response) simp
  then have "1 \<le> ?S" "?S \<le> 1000"
    by (cases rule: size_param_cases [of "searchParams request"]; simp)+
  then have sz: "size_param ?sp = Inr ?S"
    by (simp add: size_param_def searchParams_has_def searchParams_get_def
        parseInt_Number_toString)
  from a have off: "offset_param ?sp = Inl (Error_status ''invalid page offset'' 400)"
    by (simp add: offset_param_def searchParams_has_def searchParams_get_def
        parseInt_Number_toString)
  from run show "l = ''<'' @ pathname request @ ''?size='' @ Number_toString ?S
          @ ''&offset='' @ Number_toString ?N @ ''>; rel=\"next\"''"
    by (rule userUploadsGet_response) (use a in \<open>auto simp: link_text split: if_splits\<close>)
  show "userUploadsGet Date_parse env (request \<lparr> searchParams := ?sp \<rparr>)
        = (Inl (Error_status ''invalid page offset'' 400), [])"
    by (rule userUploadsGet_offset_invalid) (simp_all add: sz off)
qed

theorem next_link_rejected_when_followed_witness:
  "\<exists>response calls.
     userUploadsGet example_Date_parse (example_db 5000)
         (example_request [(''size'', ''1000''), (''offset'', ''1'')])
       = (Inr response, calls) \<and>
     Next_link (headers response)
       = Some ''</user/uploads?size=1000&offset=1001>; rel=\"next\"'' \<and>
     userUploadsGet example_Date_parse (example_db 5000)
         (example_request [(''size'', ''1000''), (''offset'', ''1001'')])
       = (Inl (Error_status ''invalid page offset'' 400), [])"
proof -
  obtain response calls
    where run: "userUploadsGet example_Date_parse (example_db 5000)
         (example_request [(''size'', ''1000''), (''offset'', ''1'')]) = (Inr response, calls)"
      and h: "Size (headers response) = 1000" "Offset (headers response) = 1"
      and l: "Next_link (headers response)
         = Some ''</user/uploads?size=1000&offset=1001>; rel=\"next\"''"
    by (simp add: example_defs parseInt_examples)
  from next_link_rejected_when_followed [THEN conjunct2, THEN mp, OF conjI, OF run conjI, OF l]
  have "userUploadsGet example_Date_parse (example_db 5000)
         (example_request [(''size'', ''1000''), (''offset'', ''1001'')])
       = (Inl (Error_status ''invalid page offset'' 400), [])"
    by (simp add: h example_request_def Number_toString_def decimal.simps)
  with run l show ?thesis by blast
qed

text \<open>
  C9. Whenever the handler responds, the query of each link it sets consists of
  \<open>size\<close> and \<open>offset\<close> alone. So the request that follows a link has no \<open>before\<close>,
  \<open>after\<close>, \<open>sortBy\<close> or \<open>sortOrder\<close>, and every call of the store it makes has no
  date bound and the default order \<open>Date\<close>, \<open>Desc\<close>; whereas the call made for the
  page the link came from had the date bounds of its request, and its \<open>sortBy\<close> and
  \<open>sortOrder\<close> whenever they were not empty.
\<close>

theorem links_drop_filter_and_sort:
  assumes "userUploadsGet Date_parse env request = (Inr response, calls)"
    and "Next_link (headers response) = Some l \<or> Prev_link (headers response) = Some l"
  shows "\<exists>S N.
      l = ''<'' @ pathname request @ ''?size='' @ Number_toString S
            @ ''&offset='' @ Number_toString N @ ''>; rel=\"next\"'' \<and>
      (\<forall>call \<in> set (snd (userUploadsGet Date_parse env
            (request \<lparr> searchParams :=
               [(''size'', Number_toString S), (''offset'', Number_toString N)] \<rparr>))).
         before (snd call) = None \<and> after (snd call) = None \<and>
         sortBy (snd call) = ''Date'' \<and> sortOrder (snd call) = ''Desc'') \<and>
      (\<exists>opts. calls = [(auth_user_id request, opts)] \<and>
         (searchParams_get (searchParams request) ''before'' \<noteq> None \<longrightarrow> before opts \<noteq> None) \<and>
         (searchParams_get (searchParams request) ''after'' \<noteq> None \<longrightarrow> after opts \<noteq> None) \<and>
         (\<forall>v. searchParams_get (searchParams request) ''sortBy'' = Some v \<and> v \<noteq> [] \<longrightarrow>
              sortBy opts = v) \<and>
         (\<forall>v. searchParams_get (searchParams request) ''sortOrder'' = Some v \<and> v \<noteq> [] \<longrightarrow>
              sortOrder opts = v))"
proof -
  let ?sp = "searchParams request"
  have followed: "before (snd call) = None \<and> after (snd call) = None \<and>
         sortBy (snd call) = ''Date'' \<and> sortOrder (snd call) = ''Desc''"
    if "call \<in> set (snd (userUploadsGet Date_parse env
            (request \<lparr> searchParams := [(''size'', s), (''offset'', off)] \<rparr>)))"
    for call s off
    using that
    by (rule userUploadsGet_calls)
       (auto simp: before_param_def after_param_def get_or_def searchParams_has_def
          searchParams_get_def)
  from assms(1) show ?thesis
  proof (rule userUploadsGet_response)
    fix sz off bef aft opts data
    assume bef: "before_param Date_parse ?sp = Inr bef"
      and aft: "after_param Date_parse ?sp = Inr aft"
      and opts: "opts = \<lparr> size' = sz, offset = off, before = bef, after = aft,
               sortBy = get_or ?sp ''sortBy'' ''Date'',
               sortOrder = get_or ?sp ''sortOrder'' ''Desc'' \<rparr>"
      and calls: "calls = [(auth_user_id request, opts)]"
      and response: "response = \<lparr> body = uploads data,
       headers = \<lparr> Count = count data, Size = sz, Offset = off,
         Next_link = (if int (length (uploads data)) + off < count data
                      then Some (link (pathname request) sz (off + sz)) else None),
         Prev_link = (if off \<noteq> 0
                      then Some (link (pathname request) sz (off - sz)) else None) \<rparr> \<rparr>"
    from assms(2) response obtain N where l: "l = link (pathname request) sz N"
      by (auto split: if_splits)
    from bef have b: "searchParams_get ?sp ''before'' \<noteq> None \<longrightarrow> bef \<noteq> None"
      by (cases rule: before_param_cases [of ?sp Date_parse]) auto
    from aft have a: "searchParams_get ?sp ''after'' \<noteq> None \<longrightarrow> aft \<noteq> None"
      by (cases rule: after_param_cases [of ?sp Date_parse]) auto
    have "\<exists>opts. calls = [(auth_user_id request, opts)] \<and>
         (searchParams_get ?sp ''before'' \<noteq> None \<longrightarrow> before opts \<noteq> None) \<and>
         (searchParams_get ?sp ''after'' \<noteq> None \<longrightarrow> after opts \<noteq> None) \<and>
         (\<forall>v. searchParams_get ?sp ''sortBy'' = Some v \<and> v \<noteq> [] \<longrightarrow> sortBy opts = v) \<and>
         (\<forall>v. searchParams_get ?sp ''sortOrder'' = Some v \<and> v \<noteq> [] \<longrightarrow> sortOrder opts = v)"
      using a b by (simp add: calls opts get_or_def)
    with l followed show ?thesis
      unfolding link_text by blast
  qed
qed

theorem links_drop_filter_and_sort_witness:
  "userUploadsGet example_Date_parse (example_db 100)
       (example_request [(''size'', ''10''), (''offset'', ''30''), (''before'', ''2021-01-01''),
                         (''sortBy'', ''Name''), (''sortOrder'', ''Asc'')])
     = (Inr \<lparr> body = replicate 10 (),
            headers = \<lparr> Count = 100, Size = 10, Offset = 30,
              Next_link = Some ''</user/uploads?size=10&offset=40>; rel=\"next\"'',
              Prev_link = Some ''</user/uploads?size=10&offset=20>; rel=\"next\"'' \<rparr> \<rparr>,
        [(''1'', \<lparr> size' = 10, offset = 30, before = Some ''2021-01-01T00:00:00.000Z'',
                  after = None, sortBy = ''Name'', sortOrder = ''Asc'' \<rparr>)])
   \<and> userUploadsGet example_Date_parse (example_db 100)
       (example_request [(''size'', ''10''), (''offset'', ''40'')])
     = (Inr \<lparr> body = replicate 10 (),
            headers = \<lparr> Count = 100, Size = 10, Offset = 40,
              Next_link = Some ''</user/uploads?size=10&offset=50>; rel=\"next\"'',
              Prev_link = Some ''</user/uploads?size=10&offset=30>; rel=\"next\"'' \<rparr> \<rparr>,
        [(''1'', \<lparr> size' = 10, offset = 40, before = None, after = None,
                  sortBy = ''Date'', sortOrder = ''Desc'' \<rparr>)])"
proof -
  have iso: "toISOString 1609459200000 = ''2021-01-01T00:00:00.000Z''"
    by code_simp
  have run: "userUploadsGet example_Date_parse (example_db 100)
       (example_request [(''size'', ''10''), (''offset'', ''30''), (''before'', ''2021-01-01''),
                         (''sortBy'', ''Name''), (''sortOrder'', ''Asc'')])
     = (Inr \<lparr> body = replicate 10 (),
            headers = \<lparr> Count = 100, Size = 10, Offset = 30,
              Next_link = Some ''</user/uploads?size=10&offset=40>; rel=\"next\"'',
              Prev_link = Some ''</user/uploads?size=10&offset=20>; rel=\"next\"'' \<rparr> \<rparr>,
        [(''1'', \<lparr> size' = 10, offset = 30, before = Some ''2021-01-01T00:00:00.000Z'',
                  after = None, sortBy = ''Name'', sortOrder = ''Asc'' \<rparr>)])"
    by (simp add: example_defs parseInt_examples iso)
  have followed: "userUploadsGet example_Date_parse (example_db 100)
       (example_request [(''size'', ''10''), (''offset'', ''40'')])
     = (Inr \<lparr> body = replicate 10 (),
            headers = \<lparr> Count = 100, Size = 10, Offset = 40,
              Next_link = Some ''</user/uploads?size=10&offset=50>; rel=\"next\"'',
              Prev_link = Some ''</user/uploads?size=10&offset=30>; rel=\"next\"'' \<rparr> \<rparr>,
        [(''1'', \<lparr> size' = 10, offset = 40, before = None, after = None,
                  sortBy = ''Date'', sortOrder = ''Desc'' \<rparr>)])"
    by (simp add: example_defs parseInt_examples)
  have "\<exists>S N. ''</user/uploads?size=10&offset=40>; rel=\"next\"''
          = ''<'' @ pathname (example_request [(''size'', ''10''), (''offset'', ''30''),
                (''before'', ''2021-01-01''), (''sortBy'', ''Name''), (''sortOrder'', ''Asc'')])
            @ ''?size='' @ Number_toString S @ ''&offset='' @ Number_toString N
            @ ''>; rel=\"next\"''"
    using links_drop_filter_and_sort [OF run disjI1] by auto
  with run followed show ?thesis by blast
qed

section \<open>Parsing by prefix\<close>

text \<open>
  C10. \<open>parseInt\<close> reads the longest prefix that is a numeral and ignores the rest, so
  a \<open>size\<close> of \<open>25abc\<close> and an \<open>offset\<close> of \<open>25.9\<close> pass validation as 25: the store is
  called with size 25 and offset 25 and answers.
\<close>

theorem parseInt_prefix_passes_validation:
  "parseInt ''25abc'' = Some 25 \<and> parseInt ''25.9'' = Some 25 \<and>
   (\<exists>response.
      userUploadsGet example_Date_parse (example_db 100)
          (example_request [(''size'', ''25abc''), (''offset'', ''25.9'')])
        = (Inr response,
           [(''1'', \<lparr> size' = 25, offset = 25, before = None, after = None,
                     sortBy = ''Date'', sortOrder = ''Desc'' \<rparr>)]) \<and>
      Size (headers response) = 25 \<and> Offset (headers response) = 25)"
  by (simp add: example_defs parseInt_examples)

end
